theory Spec2Isabelle
  imports Complex_Main "HOL-Library.AList"
begin

text \<open>
  A model of the library scanner (\<^verbatim>\<open>services/library_scanner.py\<close>) with the parts of
  the Firestore service and of the settings it reads: the file name parser, the duplicate
  reconciler in its two modes, the progress record with its percentage, the counting and
  the processing pass over a directory tree, the background task that runs them, and the
  cancellation of a scan.  Every function carries the name of the method it models,
  without the leading underscore of a private method.  Exceptions are values: a function
  that can raise returns \<open>error + result\<close>, and every \<^verbatim>\<open>try\<close> of the source is a case
  distinction on such a value.
\<close>

section \<open>Python values\<close>

text \<open>
  The scanner passes its items around as \<^verbatim>\<open>Dict[str, Any]\<close>.  A dictionary is an
  association list in insertion order (looked up with \<^const>\<open>map_of\<close>); its values are
  the JSON-like values below.  Numbers are integers (Python's \<^verbatim>\<open>bool\<close> is its
  \<^verbatim>\<open>int\<close> subclass; floating-point numbers are not modelled), and strings are
  sequences of code points below 256.  Python's \<^verbatim>\<open>==\<close> is read as equality of
  these values.
\<close>

datatype pyval =
    PNone
  | PInt int
  | PStr string
  | PList "pyval list"
  | PDict "(string \<times> pyval) list"

type_synonym pydict = "(string \<times> pyval) list"

datatype py_error =
  AttributeError | TypeError | OSError | FileOperationError | MetadataExtractionError
  | ScanOperationError

text \<open>Truthiness, as \<^verbatim>\<open>if x:\<close> tests it.\<close>

fun py_truthy :: "pyval \<Rightarrow> bool" where
  "py_truthy PNone = False"
| "py_truthy (PInt i) = (i \<noteq> 0)"
| "py_truthy (PStr s) = (s \<noteq> [])"
| "py_truthy (PList xs) = (xs \<noteq> [])"
| "py_truthy (PDict d) = (d \<noteq> [])"

text \<open>\<^verbatim>\<open>d.get(k, default)\<close> on a dictionary.\<close>

definition dict_get :: "pydict \<Rightarrow> string \<Rightarrow> pyval \<Rightarrow> pyval" where
  "dict_get d k dflt = (case map_of d k of None \<Rightarrow> dflt | Some v \<Rightarrow> v)"

text \<open>
  \<^verbatim>\<open>x.get(k, default)\<close> on an arbitrary value: only a dictionary has the method,
  anything else raises \<^verbatim>\<open>AttributeError\<close>.
\<close>

fun py_get :: "pyval \<Rightarrow> string \<Rightarrow> pyval \<Rightarrow> py_error + pyval" where
  "py_get (PDict d) k dflt = Inr (dict_get d k dflt)"
| "py_get _ k dflt = Inl AttributeError"

text \<open>
  A value inside an f-string.  A string is inserted as it is; how Python prints any other
  value is taken as the parameter \<open>fmt\<close>.
\<close>

fun py_format :: "(pyval \<Rightarrow> string) \<Rightarrow> pyval \<Rightarrow> string" where
  "py_format fmt (PStr s) = s"
| "py_format fmt v = fmt v"

text \<open>Lists and dictionaries cannot be hashed (set members, dictionary keys).\<close>

fun py_hashable :: "pyval \<Rightarrow> bool" where
  "py_hashable (PList xs) = False"
| "py_hashable (PDict d) = False"
| "py_hashable _ = True"

section \<open>Settings\<close>

definition max_scan_depth :: nat where
  "max_scan_depth = 10"

definition max_concurrent_scans :: nat where
  "max_concurrent_scans = 2"

definition supported_video_extensions :: "string list" where
  "supported_video_extensions =
     [''.mp4'', ''.mkv'', ''.avi'', ''.mov'', ''.wmv'', ''.m4v'', ''.flv'', ''.webm'']"

definition supported_audio_extensions :: "string list" where
  "supported_audio_extensions = [''.mp3'', ''.flac'', ''.wav'', ''.aac'', ''.ogg'']"

definition supported_subtitle_extensions :: "string list" where
  "supported_subtitle_extensions = [''.srt'', ''.vtt'', ''.ass'', ''.ssa'', ''.sub'', ''.idx'']"

section \<open>Strings and paths\<close>

text \<open>POSIX paths: \<^verbatim>\<open>os.sep\<close> is the slash.\<close>

definition os_sep :: char where
  "os_sep = CHR ''/''"

definition is_upper_ascii :: "char \<Rightarrow> bool" where
  "is_upper_ascii c = ((65::nat) \<le> of_char c \<and> of_char c \<le> (90::nat))"

definition is_lower_ascii :: "char \<Rightarrow> bool" where
  "is_lower_ascii c = ((97::nat) \<le> of_char c \<and> of_char c \<le> (122::nat))"

text \<open>
  \<^verbatim>\<open>str.lower\<close> and \<^verbatim>\<open>str.upper\<close> on the letters A to Z.  The scanner only tests
  the results against ASCII strings, which no other character can produce below 256.
\<close>

definition lower_char :: "char \<Rightarrow> char" where
  "lower_char c = (if is_upper_ascii c then char_of (of_char c + (32::nat)) else c)"

definition upper_char :: "char \<Rightarrow> char" where
  "upper_char c = (if is_lower_ascii c then char_of (of_char c - (32::nat)) else c)"

definition str_lower :: "string \<Rightarrow> string" where
  "str_lower s = map lower_char s"

definition str_upper :: "string \<Rightarrow> string" where
  "str_upper s = map upper_char s"

text \<open>\<^verbatim>\<open>s.startswith(p)\<close>.\<close>

definition startswith :: "string \<Rightarrow> string \<Rightarrow> bool" where
  "startswith s p = (take (length p) s = p)"

text \<open>\<^verbatim>\<open>s.rfind(c)\<close> for one character: the last index of \<open>c\<close>, or \<open>-1\<close>.\<close>

definition rfind :: "string \<Rightarrow> char \<Rightarrow> int" where
  "rfind s c =
     (if c \<in> set s then int (length s) - 1 - int (length (takeWhile (\<lambda>x. x \<noteq> c) (rev s)))
      else - 1)"

text \<open>
  \<^verbatim>\<open>os.path.splitext\<close>: the extension starts at the last dot of the last path
  component, unless only dots precede it there.
\<close>

definition splitext :: "string \<Rightarrow> string \<times> string" where
  "splitext p =
     (let sepIndex = rfind p os_sep;
          dotIndex = rfind p (CHR ''.'')
      in if dotIndex > sepIndex
            \<and> list_ex (\<lambda>c. c \<noteq> CHR ''.'')
                 (take (nat (dotIndex - (sepIndex + 1))) (drop (nat (sepIndex + 1)) p))
         then (take (nat dotIndex) p, drop (nat dotIndex) p)
         else (p, []))"

text \<open>\<^verbatim>\<open>os.path.basename\<close>: what follows the last slash.\<close>

definition basename :: "string \<Rightarrow> string" where
  "basename p = drop (nat (rfind p os_sep + 1)) p"

text \<open>\<^verbatim>\<open>os.path.join(a, b)\<close> for two components.\<close>

definition path_join :: "string \<Rightarrow> string \<Rightarrow> string" where
  "path_join a b =
     (if startswith b [os_sep] then b
      else if a = [] \<or> last a = os_sep then a @ b
      else a @ [os_sep] @ b)"

text \<open>
  \<^verbatim>\<open>str.isspace\<close> for one code point below 256, and \<^verbatim>\<open>str.strip()\<close>.
\<close>

definition is_space :: "char \<Rightarrow> bool" where
  "is_space c =
     (let n = (of_char c :: nat)
      in (9 \<le> n \<and> n \<le> 13) \<or> (28 \<le> n \<and> n \<le> 32) \<or> n = 133 \<or> n = 160)"

definition str_strip :: "string \<Rightarrow> string" where
  "str_strip s = rev (dropWhile is_space (rev (dropWhile is_space s)))"

section \<open>The two patterns\<close>

definition is_digit :: "char \<Rightarrow> bool" where
  "is_digit c = ((48::nat) \<le> of_char c \<and> of_char c \<le> (57::nat))"

text \<open>
  \<^verbatim>\<open>re.search\<close> tries the pattern at every position from the left and returns the
  first position where it matches; \<open>m\<close> decides whether the pattern matches a prefix
  of its argument.
\<close>

fun re_search :: "(string \<Rightarrow> bool) \<Rightarrow> string \<Rightarrow> nat option" where
  "re_search m [] = (if m [] then Some 0 else None)"
| "re_search m (c # cs) =
     (if m (c # cs) then Some 0 else map_option Suc (re_search m cs))"

text \<open>The pattern \<^verbatim>\<open>\(\d{4}\)\<close> at the start of a string.\<close>

fun match_year :: "string \<Rightarrow> bool" where
  "match_year (c0 # d1 # d2 # d3 # d4 # c5 # rest) =
     (c0 = CHR ''('' \<and> is_digit d1 \<and> is_digit d2 \<and> is_digit d3 \<and> is_digit d4
        \<and> c5 = CHR '')'')"
| "match_year _ = False"

text \<open>
  The pattern \<^verbatim>\<open>S\d+E\d+\<close> with \<^verbatim>\<open>re.IGNORECASE\<close> at the start of a string.  The
  first \<^verbatim>\<open>\d+\<close> takes every digit that follows the S: giving one back would leave a
  digit where the E has to stand.
\<close>

definition match_episode :: "string \<Rightarrow> bool" where
  "match_episode s =
     (case s of
        [] \<Rightarrow> False
      | c # rest \<Rightarrow>
          (c = CHR ''S'' \<or> c = CHR ''s'')
          \<and> takeWhile is_digit rest \<noteq> []
          \<and> (case dropWhile is_digit rest of
                e # d # _ \<Rightarrow> (e = CHR ''E'' \<or> e = CHR ''e'') \<and> is_digit d
              | _ \<Rightarrow> False))"

section \<open>Parsing a file name\<close>

text \<open>\<^verbatim>\<open>int(s)\<close> for a string of decimal digits.\<close>

definition digits_value :: "string \<Rightarrow> int" where
  "digits_value s = foldl (\<lambda>n c. 10 * n + (int (of_char c) - 48)) 0 s"

record parsed_info =
  title :: string
  year :: "int option"
  season :: "int option"
  episode :: "int option"

text \<open>
  \<^verbatim>\<open>_parse_filename\<close>.  \<open>year_match\<close> and \<open>episode_match\<close> are the positions where
  the two searches match (\<^verbatim>\<open>m.start()\<close>); the groups are read off behind them.
\<close>

definition parse_filename :: "string \<Rightarrow> parsed_info" where
  "parse_filename filename =
     (let name_without_ext = fst (splitext filename);
          year_match = re_search match_year name_without_ext;
          episode_match = re_search match_episode name_without_ext;
          after_s = (\<lambda>j. drop (Suc j) name_without_ext);
          after_e = (\<lambda>j. drop 1 (dropWhile is_digit (after_s j)))
      in \<lparr> title =
             (case year_match of
                Some i \<Rightarrow> str_strip (take i name_without_ext)
              | None \<Rightarrow>
                  (case episode_match of
                     Some j \<Rightarrow> str_strip (take j name_without_ext)
                   | None \<Rightarrow> name_without_ext)),
           year = map_option (\<lambda>i. digits_value (take 4 (drop (Suc i) name_without_ext))) year_match,
           season = map_option (\<lambda>j. digits_value (takeWhile is_digit (after_s j))) episode_match,
           episode = map_option (\<lambda>j. digits_value (takeWhile is_digit (after_e j))) episode_match \<rparr>)"

text \<open>
  The title rule in the words of the specification: the prefix in front of whichever
  marker stands first in the name.
\<close>

definition title_before_first_marker :: "string \<Rightarrow> string" where
  "title_before_first_marker filename =
     (let name_without_ext = fst (splitext filename)
      in case (re_search match_year name_without_ext, re_search match_episode name_without_ext) of
           (None, None) \<Rightarrow> name_without_ext
         | (Some i, None) \<Rightarrow> str_strip (take i name_without_ext)
         | (None, Some j) \<Rightarrow> str_strip (take j name_without_ext)
         | (Some i, Some j) \<Rightarrow> str_strip (take (min i j) name_without_ext))"

text \<open>
  The two markers stated without the search: a year marker stands at position \<open>i\<close>,
  an episode marker stands at position \<open>i\<close> (with \<open>m\<close> digits after the S).
\<close>

definition year_marker_at :: "string \<Rightarrow> nat \<Rightarrow> bool" where
  "year_marker_at s i =
     (i + 6 \<le> length s \<and> s ! i = CHR ''('' \<and> is_digit (s ! (i + 1)) \<and> is_digit (s ! (i + 2))
        \<and> is_digit (s ! (i + 3)) \<and> is_digit (s ! (i + 4)) \<and> s ! (i + 5) = CHR '')'')"

definition episode_marker_at :: "string \<Rightarrow> nat \<Rightarrow> bool" where
  "episode_marker_at s i =
     list_ex (\<lambda>m. i + m + 3 \<le> length s
        \<and> (s ! i = CHR ''S'' \<or> s ! i = CHR ''s'')
        \<and> list_all is_digit (take m (drop (i + 1) s))
        \<and> (s ! (i + m + 1) = CHR ''E'' \<or> s ! (i + m + 1) = CHR ''e'')
        \<and> is_digit (s ! (i + m + 2))) [1..<length s]"

section \<open>Classifying names\<close>

definition is_media_file :: "string \<Rightarrow> bool" where
  "is_media_file filename =
     (let extension = str_lower (snd (splitext filename))
      in extension \<in> set (supported_video_extensions @ supported_audio_extensions
                            @ supported_subtitle_extensions))"

definition is_video_file :: "string \<Rightarrow> bool" where
  "is_video_file filename =
     (let extension = str_lower (snd (splitext filename))
      in extension \<in> set supported_video_extensions)"

definition determine_file_media_type :: "string \<Rightarrow> string" where
  "determine_file_media_type file_path =
     (let filename = basename file_path
      in if CHR ''S'' \<in> set (str_upper filename) \<and> CHR ''E'' \<in> set (str_upper filename)
            \<and> re_search match_episode filename \<noteq> None
         then ''episode''
         else if CHR ''('' \<in> set filename \<and> CHR '')'' \<in> set filename
                 \<and> re_search match_year filename \<noteq> None
         then ''movie''
         else ''unknown'')"

section \<open>The duplicate reconciler\<close>

record field_diff =
  field :: string
  newValue :: pyval
  existingValue :: pyval

record diff_entry =
  entry_path :: pyval
  entry_type :: pyval
  entry_differences :: "field_diff list"

text \<open>The report dictionary; \<open>error\<close> is its \<^verbatim>\<open>"error"\<close> key, absent on success.\<close>

record DuplicateReport =
  duplicatesFound :: nat
  newItems :: nat
  differences :: "diff_entry list"
  error :: "py_error option"

text \<open>
  One of the three comparisons of \<^verbatim>\<open>_compare_item_data\<close>: the entry it appends when
  the two values differ.
\<close>

definition field_difference :: "string \<Rightarrow> pyval \<Rightarrow> pyval \<Rightarrow> field_diff list" where
  "field_difference name new_value existing_value =
     (if new_value \<noteq> existing_value
      then [\<lparr> field = name, newValue = new_value, existingValue = existing_value \<rparr>]
      else [])"

text \<open>
  \<^verbatim>\<open>_compare_item_data\<close>.  The new item is a dictionary of the scan; the existing item
  is whatever the lookup returned.  Every \<^verbatim>\<open>.get\<close> on something that is not a
  dictionary raises.
\<close>

definition compare_item_data :: "pydict \<Rightarrow> pyval \<Rightarrow> py_error + field_diff list" where
  "compare_item_data new_item existing_item =
     (case existing_item of
        PDict existing \<Rightarrow>
          (case (dict_get new_item ''metadata'' (PDict []), dict_get existing ''metadata'' (PDict [])) of
             (PDict new_metadata, PDict existing_metadata) \<Rightarrow>
               Inr (field_difference ''size''
                      (dict_get new_metadata ''size'' (PInt 0))
                      (dict_get existing_metadata ''size'' (PInt 0))
                    @ field_difference ''modified_time''
                        (dict_get new_metadata ''modified_time'' PNone)
                        (dict_get existing_metadata ''modified_time'' PNone)
                    @ field_difference ''media_type''
                        (dict_get new_item ''media_type'' PNone)
                        (dict_get existing ''media_type'' PNone))
           | _ \<Rightarrow> Inl AttributeError)
      | _ \<Rightarrow> Inl AttributeError)"

text \<open>
  The composite key \<^verbatim>\<open>f"{item.get('libraryPath', '')}:{item.get('path', '')}"\<close> of an
  existing item, and \<^verbatim>\<open>f"{library_path}:{item_path}"\<close> of a scanned one.
\<close>

definition composite_key :: "(pyval \<Rightarrow> string) \<Rightarrow> pydict \<Rightarrow> string" where
  "composite_key fmt item =
     py_format fmt (dict_get item ''libraryPath'' (PStr [])) @ '':''
       @ py_format fmt (dict_get item ''path'' (PStr []))"

definition item_key :: "(pyval \<Rightarrow> string) \<Rightarrow> string \<Rightarrow> pydict \<Rightarrow> string" where
  "item_key fmt library_path item =
     library_path @ '':'' @ py_format fmt (dict_get item ''path'' (PStr []))"

text \<open>
  The lookup dictionaries: one assignment per existing item, a later item replacing an
  earlier one with the same key.
\<close>

definition existing_keys :: "(pyval \<Rightarrow> string) \<Rightarrow> pydict list \<Rightarrow> (string \<rightharpoonup> pyval)" where
  "existing_keys fmt items =
     foldl (\<lambda>keys item. keys(composite_key fmt item \<mapsto> PDict item)) Map.empty items"

text \<open>
  The loop over the scan results, shared by both modes.  The state is
  \<open>(new_items, duplicates_found, differences)\<close>; an exception of the comparison leaves
  the loop.
\<close>

fun check_items ::
  "(pyval \<Rightarrow> string) \<Rightarrow> string \<Rightarrow> (string \<rightharpoonup> pyval) \<Rightarrow> (string \<rightharpoonup> pyval) \<Rightarrow> pydict list
     \<Rightarrow> nat \<times> nat \<times> diff_entry list \<Rightarrow> py_error + nat \<times> nat \<times> diff_entry list" where
  "check_items fmt library_path existing_file_keys existing_dir_keys [] acc = Inr acc"
| "check_items fmt library_path existing_file_keys existing_dir_keys (item # rest)
     (new_items, duplicates_found, entries) =
     (let item_path = dict_get item ''path'' (PStr []);
          item_type = dict_get item ''type'' (PStr []);
          item_key = library_path @ '':'' @ py_format fmt item_path
      in if item_type \<noteq> PStr ''file'' \<and> item_type \<noteq> PStr ''directory''
         then check_items fmt library_path existing_file_keys existing_dir_keys rest
                (new_items, duplicates_found, entries)
         else
           (case (if item_type = PStr ''file'' then existing_file_keys item_key
                  else existing_dir_keys item_key) of
              None \<Rightarrow>
                check_items fmt library_path existing_file_keys existing_dir_keys rest
                  (new_items + 1, duplicates_found, entries)
            | Some existing_item \<Rightarrow>
                if py_truthy existing_item
                then (case compare_item_data item existing_item of
                        Inl e \<Rightarrow> Inl e
                      | Inr differences_found \<Rightarrow>
                          check_items fmt library_path existing_file_keys existing_dir_keys rest
                            (new_items, duplicates_found + 1,
                             if differences_found \<noteq> []
                             then entries @ [\<lparr> entry_path = item_path, entry_type = item_type,
                                             entry_differences = differences_found \<rparr>]
                             else entries))
                else check_items fmt library_path existing_file_keys existing_dir_keys rest
                       (new_items + 1, duplicates_found, entries)))"

text \<open>
  What both modes return: the counts of the loop, or, after an exception, the report of
  their \<^verbatim>\<open>except\<close> branch.
\<close>

definition make_report :: "pydict list \<Rightarrow> py_error + nat \<times> nat \<times> diff_entry list \<Rightarrow> DuplicateReport" where
  "make_report scan_results r =
     (case r of
        Inr (new_items, duplicates_found, entries) \<Rightarrow>
          \<lparr> duplicatesFound = duplicates_found, newItems = new_items, differences = entries,
            error = None \<rparr>
      | Inl e \<Rightarrow>
          \<lparr> duplicatesFound = 0, newItems = length scan_results, differences = [],
            error = Some e \<rparr>)"

text \<open>\<^verbatim>\<open>xs or []\<close> for an optional list.\<close>

definition or_empty :: "'a list option \<Rightarrow> 'a list" where
  "or_empty xs = (case xs of None \<Rightarrow> [] | Some ys \<Rightarrow> ys)"

text \<open>
  \<^verbatim>\<open>_check_duplicates_with_existing\<close> (offline mode): the caller supplies the existing
  items.
\<close>

definition check_duplicates_with_existing ::
  "(pyval \<Rightarrow> string) \<Rightarrow> pydict list \<Rightarrow> string \<Rightarrow> string \<Rightarrow> pydict list option \<Rightarrow> pydict list option
     \<Rightarrow> DuplicateReport" where
  "check_duplicates_with_existing fmt scan_results user_id library_path existing_files
       existing_directories =
     (let existing_file_keys = existing_keys fmt (or_empty existing_files);
          existing_dir_keys = existing_keys fmt (or_empty existing_directories)
      in make_report scan_results
           (check_items fmt library_path existing_file_keys existing_dir_keys scan_results
              (0, 0, [])))"

text \<open>
  For the statements about the reconciler: the existing items of the kind of a scanned
  item, whether one of them has the scanned item's composite key, and a value the
  comparison reads from the metadata of an item.
\<close>

definition same_kind_existing :: "pydict list option \<Rightarrow> pydict list option \<Rightarrow> pydict \<Rightarrow> pydict list" where
  "same_kind_existing existing_files existing_directories item =
     (if dict_get item ''type'' (PStr []) = PStr ''file'' then or_empty existing_files
      else if dict_get item ''type'' (PStr []) = PStr ''directory''
      then or_empty existing_directories
      else [])"

definition has_equal_key ::
  "(pyval \<Rightarrow> string) \<Rightarrow> string \<Rightarrow> pydict list option \<Rightarrow> pydict list option \<Rightarrow> pydict \<Rightarrow> bool" where
  "has_equal_key fmt library_path existing_files existing_directories item =
     list_ex (\<lambda>e. composite_key fmt e = item_key fmt library_path item)
       (same_kind_existing existing_files existing_directories item)"

definition is_file_or_directory :: "pydict \<Rightarrow> bool" where
  "is_file_or_directory item =
     (dict_get item ''type'' (PStr []) = PStr ''file''
        \<or> dict_get item ''type'' (PStr []) = PStr ''directory'')"



text \<open>What the loop looks up for a scanned file or directory.\<close>

definition looked_up ::
  "(pyval \<Rightarrow> string) \<Rightarrow> string \<Rightarrow> pydict list option \<Rightarrow> pydict list option \<Rightarrow> pydict
     \<Rightarrow> pyval option" where
  "looked_up fmt library_path existing_files existing_directories item =
     (if dict_get item ''type'' (PStr []) = PStr ''file''
      then existing_keys fmt (or_empty existing_files) (item_key fmt library_path item)
      else existing_keys fmt (or_empty existing_directories) (item_key fmt library_path item))"

section \<open>The inventory store\<close>

text \<open>
  The Firestore service as far as the scanner reads it: whether the client was
  initialised, and the documents of the two collections.
\<close>

record firestore =
  initialized :: bool
  mediaFiles :: "pydict list"
  mediaDirectories :: "pydict list"

text \<open>
  The loop of \<^verbatim>\<open>get_existing_file_paths\<close> and \<^verbatim>\<open>get_existing_directory_paths\<close>: a
  dictionary from the documents' paths to the documents.  A path that cannot be hashed
  raises.
\<close>

fun collect_paths :: "pydict list \<Rightarrow> (pyval \<times> pydict) list \<Rightarrow> py_error + (pyval \<times> pydict) list" where
  "collect_paths [] paths = Inr paths"
| "collect_paths (data # docs) paths =
     (let file_path = dict_get data ''path'' (PStr [])
      in if py_truthy file_path
         then if py_hashable file_path
              then collect_paths docs (AList.update file_path data paths)
              else Inl TypeError
         else collect_paths docs paths)"

definition existing_paths :: "bool \<Rightarrow> pydict list \<Rightarrow> string \<Rightarrow> (pyval \<times> pydict) list" where
  "existing_paths is_initialized collection user_id =
     (if \<not> is_initialized then []
      else
        (let docs = (if user_id \<noteq> []
                     then filter (\<lambda>data. map_of data ''userId'' = Some (PStr user_id)) collection
                     else collection)
         in case collect_paths docs [] of Inl e \<Rightarrow> [] | Inr paths \<Rightarrow> paths))"

definition get_existing_file_paths :: "firestore \<Rightarrow> string \<Rightarrow> (pyval \<times> pydict) list" where
  "get_existing_file_paths db user_id = existing_paths (initialized db) (mediaFiles db) user_id"

definition get_existing_directory_paths :: "firestore \<Rightarrow> string \<Rightarrow> (pyval \<times> pydict) list" where
  "get_existing_directory_paths db user_id =
     existing_paths (initialized db) (mediaDirectories db) user_id"

text \<open>
  \<^verbatim>\<open>_check_duplicates\<close> (online mode).  The class defines the method twice; the second
  definition replaces the first and is the one modelled.  Its loops
  \<^verbatim>\<open>for file_path in existing_files\<close> run over the keys of the dictionaries the store
  returned, and call \<^verbatim>\<open>.get\<close> on each key.
\<close>

fun online_keys ::
  "(pyval \<Rightarrow> string) \<Rightarrow> pyval list \<Rightarrow> (string \<rightharpoonup> pyval) \<Rightarrow> py_error + (string \<rightharpoonup> pyval)" where
  "online_keys fmt [] keys = Inr keys"
| "online_keys fmt (file_path # rest) keys =
     (case py_get file_path ''libraryPath'' (PStr []) of
        Inl e \<Rightarrow> Inl e
      | Inr lp \<Rightarrow>
          (case py_get file_path ''path'' (PStr []) of
             Inl e \<Rightarrow> Inl e
           | Inr p \<Rightarrow>
               online_keys fmt rest
                 (keys(py_format fmt lp @ '':'' @ py_format fmt p \<mapsto> file_path))))"

definition check_duplicates ::
  "(pyval \<Rightarrow> string) \<Rightarrow> firestore \<Rightarrow> pydict list \<Rightarrow> string \<Rightarrow> string \<Rightarrow> DuplicateReport" where
  "check_duplicates fmt db scan_results user_id library_path =
     (let existing_files = get_existing_file_paths db user_id;
          existing_dirs = get_existing_directory_paths db user_id
      in make_report scan_results
           (case online_keys fmt (map fst existing_files) Map.empty of
              Inl e \<Rightarrow> Inl e
            | Inr existing_file_keys \<Rightarrow>
                (case online_keys fmt (map fst existing_dirs) Map.empty of
                   Inl e \<Rightarrow> Inl e
                 | Inr existing_dir_keys \<Rightarrow>
                     check_items fmt library_path existing_file_keys existing_dir_keys
                       scan_results (0, 0, []))))"

section \<open>The progress record\<close>

text \<open>Clock readings (\<^verbatim>\<open>time.time()\<close>) are numbers handed in by the caller.\<close>

type_synonym timestamp = int

record scan_error =
  error_type :: string
  error_message :: py_error
  error_path :: "string option"
  error_timestamp :: timestamp

record ScanProgress =
  scan_id :: string
  total_items :: nat
  processed_items :: nat
  current_path :: string
  status :: string
  errors :: "scan_error list"
  start_time :: timestamp
  end_time :: "timestamp option"
  files_found :: nat
  directories_found :: nat
  scan_results :: "pydict list"
  duplicate_report :: "DuplicateReport option"




section \<open>The scan registry\<close>

type_synonym registry = "(string \<times> ScanProgress) list"

text \<open>The record \<^verbatim>\<open>start_scan\<close> creates.\<close>

definition new_progress :: "string \<Rightarrow> string \<Rightarrow> timestamp \<Rightarrow> ScanProgress" where
  "new_progress new_id library_path now =
     \<lparr> scan_id = new_id, total_items = 0, processed_items = 0, current_path = library_path,
       status = ''scanning'', errors = [], start_time = now, end_time = None,
       files_found = 0, directories_found = 0, scan_results = [], duplicate_report = None \<rparr>"

text \<open>The path check of the file manager, which the source has switched off.\<close>

definition validate_path_security :: "string \<Rightarrow> bool" where
  "validate_path_security requested_path = True"

text \<open>
  \<^verbatim>\<open>start_scan\<close> up to the point where it launches the background task;
  \<open>new_id\<close> is the fresh identifier.
\<close>

definition start_scan ::
  "timestamp \<Rightarrow> string \<Rightarrow> registry \<Rightarrow> string \<Rightarrow> py_error + registry" where
  "start_scan now new_id running_scans library_path =
     (let active_scans = filter (\<lambda>s. status s = ''scanning'') (map snd running_scans)
      in if length active_scans \<ge> max_concurrent_scans then Inl ScanOperationError
         else if \<not> validate_path_security library_path then Inl ScanOperationError
         else Inr (AList.update new_id (new_progress new_id library_path now) running_scans))"

definition stop_scan :: "timestamp \<Rightarrow> registry \<Rightarrow> string \<Rightarrow> bool \<times> registry" where
  "stop_scan now running_scans sid =
     (case map_of running_scans sid of
        None \<Rightarrow> (False, running_scans)
      | Some progress \<Rightarrow>
          if status progress = ''scanning''
          then (True,
                AList.update sid (progress\<lparr> status := ''cancelled'', end_time := Some now \<rparr>)
                  running_scans)
          else (False, running_scans))"

section \<open>Processing one entry\<close>

text \<open>
  What the scanner asks of the file system and of the metadata extractor while it
  processes an entry: the metadata of the file manager, the regular files in a directory
  (\<^verbatim>\<open>os.listdir\<close> filtered by \<^verbatim>\<open>os.path.isfile\<close>), and the video metadata.
\<close>

record ports =
  get_file_metadata :: "string \<Rightarrow> py_error + pydict"
  list_files :: "string \<Rightarrow> py_error + string list"
  extract_video_metadata :: "string \<Rightarrow> py_error + pyval"

definition determine_directory_type :: "ports \<Rightarrow> string \<Rightarrow> string \<Rightarrow> py_error + string" where
  "determine_directory_type io dir_name dir_path =
     (if startswith (str_lower dir_name) ''season'' then Inr ''season''
      else if CHR ''('' \<in> set dir_name \<and> CHR '')'' \<in> set dir_name
      then (case list_files io dir_path of
              Inl e \<Rightarrow> Inl e
            | Inr fs \<Rightarrow> Inr (if list_ex is_video_file fs then ''movie'' else ''series''))
      else Inr ''unknown'')"

text \<open>
  \<^verbatim>\<open>_process_directory\<close> and \<^verbatim>\<open>_process_file\<close> catch every exception themselves and
  return \<^verbatim>\<open>None\<close>.
\<close>

definition process_directory :: "ports \<Rightarrow> string \<Rightarrow> pydict option" where
  "process_directory io dir_path =
     (case get_file_metadata io dir_path of
        Inl e \<Rightarrow> None
      | Inr dir_metadata \<Rightarrow>
          (let dir_name = basename dir_path
           in case determine_directory_type io dir_name dir_path of
                Inl e \<Rightarrow> None
              | Inr media_type \<Rightarrow>
                  Some [(''type'', PStr ''directory''), (''path'', PStr dir_path),
                        (''name'', PStr dir_name), (''media_type'', PStr media_type),
                        (''metadata'', PDict dir_metadata)]))"

definition opt_int :: "int option \<Rightarrow> pyval" where
  "opt_int v = (case v of None \<Rightarrow> PNone | Some n \<Rightarrow> PInt n)"

definition process_file :: "ports \<Rightarrow> string \<Rightarrow> bool \<Rightarrow> pydict option" where
  "process_file io file_path extract_metadata =
     (case get_file_metadata io file_path of
        Inl e \<Rightarrow> None
      | Inr file_metadata \<Rightarrow>
          (let media_metadata =
                 (if extract_metadata \<and> is_video_file file_path
                  then (case extract_video_metadata io file_path of
                          Inl e \<Rightarrow> PNone
                        | Inr m \<Rightarrow> m)
                  else PNone);
               parsed = parse_filename (basename file_path)
           in Some [(''type'', PStr ''file''), (''path'', PStr file_path),
                    (''name'', PStr (basename file_path)),
                    (''extension'', PStr (snd (splitext file_path))),
                    (''media_type'', PStr (determine_file_media_type file_path)),
                    (''metadata'', PDict file_metadata),
                    (''media_metadata'', media_metadata),
                    (''parsed_info'',
                       PDict [(''title'', PStr (title parsed)), (''year'', opt_int (year parsed)),
                              (''season'', opt_int (season parsed)),
                              (''episode'', opt_int (episode parsed))])]))"

section \<open>Walking the tree\<close>

text \<open>
  The directory tree as \<^verbatim>\<open>os.walk\<close> sees it.  \<open>Dir ds fs\<close> is a directory it can
  list: \<open>ds\<close> are the entries it reports as directories, by name, and \<open>fs\<close> the names
  of the other entries.  \<open>NoWalk\<close> is an entry it reports as a directory of its parent
  but never visits: a symbolic link to a directory, or a directory whose listing fails
  (\<^verbatim>\<open>os.walk\<close> ignores that error).
\<close>

datatype fstree = Dir "(string \<times> fstree) list" "string list" | NoWalk

lemma map_of_fstree_size:
  "map_of ds n = Some t \<Longrightarrow> size t < Suc (size_list (size_prod (\<lambda>_. 0) size) ds)"
  by (induction ds) (auto split: if_splits)

text \<open>
  \<^verbatim>\<open>for root, dirs, files in os.walk(path)\<close>, top down.  The loop body is \<open>body\<close>: it
  gets the triple and the state, and either leaves the loop (\<^verbatim>\<open>break\<close>, \<open>Inl\<close>) or
  hands back the list \<^verbatim>\<open>dirs\<close> as it has left it, together with the new state.  The
  walk then visits the names still in that list, in order.  The result says whether the
  loop was left by \<^verbatim>\<open>break\<close>.
\<close>

function os_walk ::
  "(string \<Rightarrow> string list \<Rightarrow> string list \<Rightarrow> 'st \<Rightarrow> 'st + string list \<times> 'st)
     \<Rightarrow> string \<Rightarrow> fstree \<Rightarrow> 'st \<Rightarrow> 'st \<times> bool"
and os_walk_dirs ::
  "(string \<Rightarrow> string list \<Rightarrow> string list \<Rightarrow> 'st \<Rightarrow> 'st + string list \<times> 'st)
     \<Rightarrow> string \<Rightarrow> (string \<times> fstree) list \<Rightarrow> string list \<Rightarrow> 'st \<Rightarrow> 'st \<times> bool" where
  "os_walk body root_path NoWalk st = (st, False)"
| "os_walk body root_path (Dir ds fs) st =
     (case body root_path (map fst ds) fs st of
        Inl st' \<Rightarrow> (st', True)
      | Inr (dirs, st') \<Rightarrow> os_walk_dirs body root_path ds dirs st')"
| "os_walk_dirs body root_path ds [] st = (st, False)"
| "os_walk_dirs body root_path ds (dirname # rest) st =
     (case map_of ds dirname of
        None \<Rightarrow> os_walk_dirs body root_path ds rest st
      | Some sub \<Rightarrow>
          (case os_walk body (path_join root_path dirname) sub st of
             (st', True) \<Rightarrow> (st', True)
           | (st', False) \<Rightarrow> os_walk_dirs body root_path ds rest st'))"
  by pat_completeness auto

termination
  apply (relation "inv_image (less_than <*lex*> less_than)
     (\<lambda>x. case x of
             Inl (body, root_path, t, st) \<Rightarrow> (size t, 0)
           | Inr (body, root_path, ds, ns, st) \<Rightarrow>
               (size_list (size_prod (\<lambda>_. 0) size) ds, Suc (length ns)))")
    apply (auto dest: map_of_fstree_size)
  done

text \<open>\<^verbatim>\<open>s.count(os.sep)\<close>.\<close>

definition count_sep :: "string \<Rightarrow> nat" where
  "count_sep s = length (filter (\<lambda>c. c = os_sep) s)"

subsection \<open>The counting pass\<close>

definition count_body ::
  "string \<Rightarrow> string \<Rightarrow> string list \<Rightarrow> string list \<Rightarrow> nat \<Rightarrow> nat + string list \<times> nat" where
  "count_body path root_path dirs files total0 =
     (let dirs1 = filter (\<lambda>d. \<not> startswith d ''.'' \<and> d \<notin> set [''@eaDir'']) dirs;
          total1 = total0 + length dirs1;
          total2 = total1 + length (filter is_media_file files);
          depth = count_sep (drop (length path) root_path)
      in Inr (if depth \<ge> max_scan_depth then [] else dirs1, total2))"

text \<open>
  \<^verbatim>\<open>_count_items_sync\<close>.  Nothing in its loop raises, so its \<^verbatim>\<open>except\<close> branch has no
  counterpart here.
\<close>

definition count_items_sync :: "string \<Rightarrow> fstree \<Rightarrow> nat" where
  "count_items_sync path tree = fst (os_walk (count_body path) path tree 0)"

subsection \<open>The processing pass\<close>

text \<open>
  The state of the processing pass: the progress record it updates, the list
  \<^verbatim>\<open>results\<close>, and the snapshots \<^verbatim>\<open>_notify_progress\<close> hands to the callback.
\<close>

record scan_state =
  progress :: ScanProgress
  results :: "pydict list"
  published :: "ScanProgress list"

definition notify_progress :: "scan_state \<Rightarrow> scan_state" where
  "notify_progress st = st\<lparr> published := published st @ [progress st] \<rparr>"

definition count_processed :: "scan_state \<Rightarrow> scan_state" where
  "count_processed st =
     st\<lparr> progress := (progress st)\<lparr> processed_items := processed_items (progress st) + 1 \<rparr> \<rparr>"

fun process_directories :: "ports \<Rightarrow> string \<Rightarrow> string list \<Rightarrow> scan_state \<Rightarrow> scan_state" where
  "process_directories io root_path [] st = st"
| "process_directories io root_path (dir_name # rest) st =
     (if status (progress st) = ''cancelled'' then st
      else
        (let dir_path = path_join root_path dir_name;
             st1 = (case process_directory io dir_path of
                      None \<Rightarrow> st
                    | Some dir_info \<Rightarrow>
                        if dir_info \<noteq> [] then st\<lparr> results := results st @ [dir_info] \<rparr> else st)
         in process_directories io root_path rest (notify_progress (count_processed st1))))"

fun process_files :: "ports \<Rightarrow> bool \<Rightarrow> string \<Rightarrow> string list \<Rightarrow> scan_state \<Rightarrow> scan_state" where
  "process_files io extract_metadata root_path [] st = st"
| "process_files io extract_metadata root_path (file_name # rest) st =
     (if status (progress st) = ''cancelled'' then st
      else if \<not> is_media_file file_name
      then process_files io extract_metadata root_path rest st
      else
        (let file_path = path_join root_path file_name;
             st1 = (case process_file io file_path extract_metadata of
                      None \<Rightarrow> st
                    | Some file_info \<Rightarrow>
                        if file_info \<noteq> [] then st\<lparr> results := results st @ [file_info] \<rparr> else st)
         in process_files io extract_metadata root_path rest
              (notify_progress (count_processed st1))))"

definition scan_body ::
  "ports \<Rightarrow> bool \<Rightarrow> string \<Rightarrow> string \<Rightarrow> string list \<Rightarrow> string list \<Rightarrow> scan_state
     \<Rightarrow> scan_state + string list \<times> scan_state" where
  "scan_body io extract_metadata directory_path root_path dirs files st =
     (if status (progress st) = ''cancelled'' then Inl st
      else
        (let dirs1 = filter (\<lambda>d. \<not> startswith d ''.'' \<and> d \<notin> set [''@eaDir'']) dirs;
             st1 = st\<lparr> progress := (progress st)\<lparr> current_path := root_path \<rparr> \<rparr>;
             st2 = process_directories io root_path dirs1 st1;
             st3 = process_files io extract_metadata root_path files st2;
             depth = count_sep (drop (length directory_path) root_path)
         in Inr (if depth \<ge> max_scan_depth then [] else dirs1, st3)))"

text \<open>
  \<^verbatim>\<open>_scan_directory_sync\<close>.  The two processing functions never raise and nothing else
  in the loop does, so the \<^verbatim>\<open>except\<close> branches of the loop have no counterpart here.
\<close>

definition scan_directory_sync :: "ports \<Rightarrow> bool \<Rightarrow> string \<Rightarrow> fstree \<Rightarrow> scan_state \<Rightarrow> scan_state" where
  "scan_directory_sync io extract_metadata directory_path tree st =
     fst (os_walk (scan_body io extract_metadata directory_path) directory_path tree st)"

section \<open>The background task\<close>

text \<open>
  \<^verbatim>\<open>_run_scan_async\<close> in three steps, so that a call of \<^const>\<open>stop_scan\<close> can be placed
  between them: the counting pass, the processing pass with the bookkeeping behind it, and
  the duplicate check with the completion.  None of the awaited calls raises, so the
  branch that sets the status to \<^verbatim>\<open>error\<close> has no counterpart here.
\<close>

definition count_pass :: "string \<Rightarrow> fstree \<Rightarrow> ScanProgress \<Rightarrow> ScanProgress" where
  "count_pass library_path tree p = p\<lparr> total_items := count_items_sync library_path tree \<rparr>"

definition count_type :: "string \<Rightarrow> pydict list \<Rightarrow> nat" where
  "count_type t rs = length (filter (\<lambda>r. dict_get r ''type'' PNone = PStr t) rs)"

definition process_pass :: "ports \<Rightarrow> bool \<Rightarrow> string \<Rightarrow> fstree \<Rightarrow> ScanProgress \<Rightarrow> scan_state" where
  "process_pass io extract_metadata library_path tree p =
     (let st = scan_directory_sync io extract_metadata library_path tree
                 \<lparr> progress = p, results = [], published = [] \<rparr>
      in st\<lparr> progress := (progress st)
               \<lparr> scan_results := results st,
                 files_found := count_type ''file'' (results st),
                 directories_found := count_type ''directory'' (results st) \<rparr> \<rparr>)"

text \<open>
  The set \<^verbatim>\<open>duplicate_paths\<close> (a list here; only membership is asked).  Adding to a
  set, and asking a set or a dictionary for a member, hashes the value.
\<close>

fun add_difference_paths :: "diff_entry list \<Rightarrow> pyval list \<Rightarrow> py_error + pyval list" where
  "add_difference_paths [] duplicate_paths = Inr duplicate_paths"
| "add_difference_paths (diff_item # rest) duplicate_paths =
     (if py_hashable (entry_path diff_item)
      then add_difference_paths rest (duplicate_paths @ [entry_path diff_item])
      else Inl TypeError)"

fun add_existing_paths ::
  "(pyval \<times> pydict) list \<Rightarrow> (pyval \<times> pydict) list \<Rightarrow> pydict list \<Rightarrow> pyval list
     \<Rightarrow> py_error + pyval list" where
  "add_existing_paths existing_files existing_dirs [] duplicate_paths = Inr duplicate_paths"
| "add_existing_paths existing_files existing_dirs (result # rest) duplicate_paths =
     (let result_path = dict_get result ''path'' (PStr [])
      in if dict_get result ''type'' PNone = PStr ''file''
         then if \<not> py_hashable result_path then Inl TypeError
              else add_existing_paths existing_files existing_dirs rest
                     (if map_of existing_files result_path \<noteq> None
                      then duplicate_paths @ [result_path] else duplicate_paths)
         else if dict_get result ''type'' PNone = PStr ''directory''
         then if \<not> py_hashable result_path then Inl TypeError
              else add_existing_paths existing_files existing_dirs rest
                     (if map_of existing_dirs result_path \<noteq> None
                      then duplicate_paths @ [result_path] else duplicate_paths)
         else add_existing_paths existing_files existing_dirs rest duplicate_paths)"

text \<open>
  The filtering of the scan results once the report counts a duplicate: the paths of the
  report's differences, the scanned paths the store knows, and the results whose path is
  in neither.
\<close>

definition filter_duplicates ::
  "firestore \<Rightarrow> string \<Rightarrow> DuplicateReport \<Rightarrow> pydict list \<Rightarrow> py_error + pydict list" where
  "filter_duplicates db user_id report scanned =
     (case add_difference_paths (differences report) [] of
        Inl e \<Rightarrow> Inl e
      | Inr paths1 \<Rightarrow>
          (let existing_files = get_existing_file_paths db user_id;
               existing_dirs = get_existing_directory_paths db user_id
           in case add_existing_paths existing_files existing_dirs scanned paths1 of
                Inl e \<Rightarrow> Inl e
              | Inr duplicate_paths \<Rightarrow>
                  if list_all (\<lambda>result. py_hashable (dict_get result ''path'' (PStr []))) scanned
                  then Inr (filter (\<lambda>result. dict_get result ''path'' (PStr [])
                                               \<notin> set duplicate_paths) scanned)
                  else Inl TypeError))"

text \<open>
  The choice of the mode: offline when the caller has supplied either list
  (\<^verbatim>\<open>existing_files is not None or existing_directories is not None\<close>), online
  otherwise.
\<close>

definition duplicate_check ::
  "(pyval \<Rightarrow> string) \<Rightarrow> firestore \<Rightarrow> pydict list \<Rightarrow> string \<Rightarrow> string \<Rightarrow> pydict list option
     \<Rightarrow> pydict list option \<Rightarrow> DuplicateReport" where
  "duplicate_check fmt db scanned uid library_path existing_files existing_directories =
     (case (existing_files, existing_directories) of
        (None, None) \<Rightarrow> check_duplicates fmt db scanned uid library_path
      | _ \<Rightarrow> check_duplicates_with_existing fmt scanned uid library_path
               existing_files existing_directories)"

text \<open>
  The block \<^verbatim>\<open>if check_duplicates and user_id:\<close> with its \<^verbatim>\<open>try\<close>.  Both checks catch
  their own exceptions and return a report, so only the filtering can reach the handler.
\<close>

definition duplicate_step ::
  "(pyval \<Rightarrow> string) \<Rightarrow> firestore \<Rightarrow> timestamp \<Rightarrow> string \<Rightarrow> bool \<Rightarrow> string option
     \<Rightarrow> pydict list option \<Rightarrow> pydict list option \<Rightarrow> pydict list \<Rightarrow> ScanProgress \<Rightarrow> ScanProgress" where
  "duplicate_step fmt db now library_path check_dups user_id existing_files
       existing_directories scanned p =
     (case user_id of
        None \<Rightarrow> p
      | Some uid \<Rightarrow>
          if \<not> (check_dups \<and> uid \<noteq> []) then p
          else
            (let report = duplicate_check fmt db scanned uid library_path existing_files
                            existing_directories;
                 p1 = p\<lparr> duplicate_report := Some report \<rparr>
             in if duplicatesFound report > 0
                then (case filter_duplicates db uid report scanned of
                        Inl e \<Rightarrow>
                          p1\<lparr> errors := errors p1 @
                                [\<lparr> error_type = ''duplicate_check_error'', error_message = e,
                                   error_path = None, error_timestamp = now \<rparr>] \<rparr>
                      | Inr kept \<Rightarrow>
                          p1\<lparr> scan_results := kept,
                              files_found := count_type ''file'' kept,
                              directories_found := count_type ''directory'' kept \<rparr>)
                else p1))"

definition finish_scan ::
  "(pyval \<Rightarrow> string) \<Rightarrow> firestore \<Rightarrow> timestamp \<Rightarrow> string \<Rightarrow> bool \<Rightarrow> string option
     \<Rightarrow> pydict list option \<Rightarrow> pydict list option \<Rightarrow> scan_state \<Rightarrow> ScanProgress" where
  "finish_scan fmt db now library_path check_dups user_id existing_files existing_directories st =
     (duplicate_step fmt db now library_path check_dups user_id existing_files
        existing_directories (results st) (progress st))
       \<lparr> status := ''completed'', end_time := Some now \<rparr>"

text \<open>
  The whole task, undisturbed.  \<open>tree1\<close> is the tree as the counting pass finds it,
  \<open>tree2\<close> the tree as the processing pass finds it.  The result is the record the
  task hands to the callback at its end.
\<close>

definition run_scan_async ::
  "ports \<Rightarrow> (pyval \<Rightarrow> string) \<Rightarrow> firestore \<Rightarrow> timestamp \<Rightarrow> fstree \<Rightarrow> fstree \<Rightarrow> string \<Rightarrow> bool
     \<Rightarrow> bool \<Rightarrow> string option \<Rightarrow> pydict list option \<Rightarrow> pydict list option \<Rightarrow> ScanProgress
     \<Rightarrow> ScanProgress" where
  "run_scan_async io fmt db now tree1 tree2 library_path extract_metadata check_dups user_id
       existing_files existing_directories p =
     finish_scan fmt db now library_path check_dups user_id existing_files existing_directories
       (process_pass io extract_metadata library_path tree2 (count_pass library_path tree1 p))"

section \<open>What a walk does to the state\<close>

text \<open>
  For the statements about the two passes.  An item as the processing pass appends it: a
  file or a directory whose path is a string.
\<close>

definition scanned_item :: "pydict \<Rightarrow> bool" where
  "scanned_item r =
     (is_file_or_directory r \<and> (case map_of r ''path'' of Some (PStr p) \<Rightarrow> True | _ \<Rightarrow> False))"

text \<open>
  A snapshot \<open>s\<close> published after the record was \<open>p\<close>: it differs from \<open>p\<close> in the
  number of processed items and the current path at most, and at most \<open>k\<close> more items
  are processed.
\<close>

definition advanced :: "ScanProgress \<Rightarrow> nat \<Rightarrow> ScanProgress \<Rightarrow> bool" where
  "advanced p k s =
     (s = p\<lparr> processed_items := processed_items s, current_path := current_path s \<rparr>
        \<and> processed_items s \<le> processed_items p + k)"

text \<open>
  A stretch of the processing pass that processes \<open>k\<close> entries: the record changes in
  the number of processed items, which grows by \<open>k\<close>, and in the current path; one
  snapshot is published per entry, counting up one by one; at most \<open>k\<close> items are
  appended to the results.
\<close>

definition walk_step :: "scan_state \<Rightarrow> nat \<Rightarrow> scan_state \<Rightarrow> bool" where
  "walk_step st k st' =
     (progress st' = (progress st)\<lparr> processed_items := processed_items (progress st) + k,
                                   current_path := current_path (progress st') \<rparr>
      \<and> (\<exists>new. published st' = published st @ new
             \<and> list_all (advanced (progress st) k) new
             \<and> map processed_items new
                 = map (\<lambda>i. processed_items (progress st) + i) [1..<Suc k])
      \<and> (\<exists>more. results st' = results st @ more \<and> length more \<le> k
             \<and> list_all scanned_item more))"

text \<open>
  What both loop bodies leave in \<^verbatim>\<open>dirs\<close> for the walk to descend into, and the number
  of entries both of them handle at one directory.
\<close>

definition dirs_to_visit :: "string \<Rightarrow> string \<Rightarrow> string list \<Rightarrow> string list" where
  "dirs_to_visit path r dirs =
     (if count_sep (drop (length path) r) \<ge> max_scan_depth then []
      else filter (\<lambda>d. \<not> startswith d ''.'' \<and> d \<notin> set [''@eaDir'']) dirs)"

definition entries_here :: "string list \<Rightarrow> string list \<Rightarrow> nat" where
  "entries_here dirs files =
     length (filter (\<lambda>d. \<not> startswith d ''.'' \<and> d \<notin> set [''@eaDir'']) dirs)
       + length (filter is_media_file files)"

section \<open>The title of a file name\<close>

text \<open>The search returns the least position where the pattern matches.\<close>

lemma re_search_Some:
  "re_search m s = Some i \<longleftrightarrow> i \<le> length s \<and> m (drop i s) \<and> (\<forall>k<i. \<not> m (drop k s))"
proof (induction s arbitrary: i)
  case Nil
  then show ?case by auto
next
  case (Cons c cs)
  show ?case
  proof (cases "m (c # cs)")
    case True
    then show ?thesis by (cases i) auto
  next
    case False
    show ?thesis
    proof (cases i)
      case 0
      with False show ?thesis by simp
    next
      case (Suc j)
      have "(\<forall>k<Suc j. \<not> m (drop k (c # cs))) \<longleftrightarrow> (\<forall>k<j. \<not> m (drop k cs))"
        using False by (auto simp: less_Suc_eq_0_disj)
      with False Suc Cons.IH [of j] show ?thesis by auto
    qed
  qed
qed

lemma all_le_Suc_split: "(\<forall>k\<le>Suc n. Q k) \<longleftrightarrow> Q 0 \<and> (\<forall>k\<le>n. Q (Suc k))"
proof
  assume "\<forall>k\<le>Suc n. Q k"
  then show "Q 0 \<and> (\<forall>k\<le>n. Q (Suc k))" by auto
next
  assume h: "Q 0 \<and> (\<forall>k\<le>n. Q (Suc k))"
  show "\<forall>k\<le>Suc n. Q k"
  proof (intro allI impI)
    fix k assume "k \<le> Suc n"
    with h show "Q k" by (cases k) auto
  qed
qed

lemma re_search_None:
  "re_search m s = None \<longleftrightarrow> (\<forall>k\<le>length s. \<not> m (drop k s))"
proof (induction s)
  case Nil
  then show ?case by auto
next
  case (Cons c cs)
  have "(\<forall>k\<le>Suc (length cs). \<not> m (drop k (c # cs)))
          \<longleftrightarrow> \<not> m (c # cs) \<and> (\<forall>k\<le>length cs. \<not> m (drop k cs))"
    by (subst all_le_Suc_split) simp
  with Cons show ?case by auto
qed

lemma match_year_nth:
  "match_year xs \<longleftrightarrow> 6 \<le> length xs \<and> xs ! 0 = CHR ''('' \<and> is_digit (xs ! 1) \<and> is_digit (xs ! 2)
      \<and> is_digit (xs ! 3) \<and> is_digit (xs ! 4) \<and> xs ! 5 = CHR '')''"
  by (cases xs rule: match_year.cases) (auto simp: eval_nat_numeral)

lemma match_year_drop: "match_year (drop i s) \<longleftrightarrow> year_marker_at s i"
  by (auto simp: match_year_nth year_marker_at_def)

lemma not_digit_E: "\<not> is_digit (CHR ''E'')" "\<not> is_digit (CHR ''e'')"
  by (simp_all add: is_digit_def)

lemma match_episode_nth:
  "match_episode xs \<longleftrightarrow>
     (\<exists>m. 0 < m \<and> m + 3 \<le> length xs \<and> (xs ! 0 = CHR ''S'' \<or> xs ! 0 = CHR ''s'')
        \<and> list_all is_digit (take m (drop 1 xs))
        \<and> (xs ! (m + 1) = CHR ''E'' \<or> xs ! (m + 1) = CHR ''e'') \<and> is_digit (xs ! (m + 2)))"
  (is "?L \<longleftrightarrow> ?R")
proof
  assume ?L
  then obtain c rest where xs: "xs = c # rest" and c: "c = CHR ''S'' \<or> c = CHR ''s''"
    and tw: "takeWhile is_digit rest \<noteq> []"
    and dw: "case dropWhile is_digit rest of e # d # _ \<Rightarrow> (e = CHR ''E'' \<or> e = CHR ''e'') \<and> is_digit d | _ \<Rightarrow> False"
    by (auto simp: match_episode_def split: list.splits)
  define m where "m = length (takeWhile is_digit rest)"
  from dw obtain e d tl where dwe: "dropWhile is_digit rest = e # d # tl"
    and e: "e = CHR ''E'' \<or> e = CHR ''e''" and d: "is_digit d"
    by (auto split: list.splits)
  have rest: "rest = takeWhile is_digit rest @ e # d # tl"
    using dwe takeWhile_dropWhile_id [of is_digit rest] by simp
  have len: "length rest = m + 2 + length tl"
    using arg_cong [OF rest, of length] by (simp add: m_def)
  have tk: "take m rest = takeWhile is_digit rest"
    by (subst rest) (simp add: m_def)
  have "list_all is_digit (take m rest)"
    unfolding tk by (simp add: list_all_iff) (meson set_takeWhileD)
  moreover have "rest ! m = e" "rest ! (m + 1) = d"
    by (subst rest, simp add: m_def nth_append)+
  moreover have "0 < m" using tw by (simp add: m_def)
  ultimately show ?R
    using xs c e d len by (intro exI [of _ m]) auto
next
  assume ?R
  then obtain m where m: "0 < m" "m + 3 \<le> length xs" "xs ! 0 = CHR ''S'' \<or> xs ! 0 = CHR ''s''"
    "list_all is_digit (take m (drop 1 xs))"
    "xs ! (m + 1) = CHR ''E'' \<or> xs ! (m + 1) = CHR ''e''" "is_digit (xs ! (m + 2))"
    by blast
  then obtain c rest where xs: "xs = c # rest" by (cases xs) auto
  with m have r: "m + 2 \<le> length rest" "c = CHR ''S'' \<or> c = CHR ''s''"
    "list_all is_digit (take m rest)" "rest ! m = CHR ''E'' \<or> rest ! m = CHR ''e''"
    "is_digit (rest ! (m + 1))"
    by auto
  have nd: "\<not> is_digit (rest ! m)" using r(4) not_digit_E by auto
  have all: "\<forall>i<m. is_digit (rest ! i)"
    using r(1,3) by (auto simp: list_all_length)
  have tw: "takeWhile is_digit rest = take m rest"
    using all nd by (intro takeWhile_eq_take_P_nth) auto
  have dw: "dropWhile is_digit rest = drop m rest"
    using r(1) by (simp add: dropWhile_eq_drop tw)
  have "drop m rest = rest ! m # rest ! (m + 1) # drop (m + 2) rest"
    using r(1) by (metis Cons_nth_drop_Suc Suc_eq_plus1 add_2_eq_Suc' add_lessD1 less_add_one
        linorder_not_less not_less_eq_eq order_less_le_trans)
  with tw dw r m(1) xs show ?L
    by (auto simp: match_episode_def)
qed

lemma match_episode_drop: "match_episode (drop i s) \<longleftrightarrow> episode_marker_at s i"
proof -
  let ?B = "\<lambda>m. i + m + 3 \<le> length s \<and> (s ! i = CHR ''S'' \<or> s ! i = CHR ''s'')
        \<and> list_all is_digit (take m (drop (i + 1) s))
        \<and> (s ! (i + m + 1) = CHR ''E'' \<or> s ! (i + m + 1) = CHR ''e'')
        \<and> is_digit (s ! (i + m + 2))"
  have "episode_marker_at s i \<longleftrightarrow> (\<exists>m. (1 \<le> m \<and> m < length s) \<and> ?B m)"
    unfolding episode_marker_at_def list_ex_iff by (simp add: Bex_def)
  also have "\<dots> \<longleftrightarrow> (\<exists>m. 0 < m \<and> ?B m)"
  proof
    assume "\<exists>m. (1 \<le> m \<and> m < length s) \<and> ?B m"
    then obtain m where "1 \<le> m" "?B m" by blast
    then have "0 < m \<and> ?B m" by simp
    then show "\<exists>m. 0 < m \<and> ?B m" ..
  next
    assume "\<exists>m. 0 < m \<and> ?B m"
    then obtain m where "0 < m" "?B m" by blast
    then have "(1 \<le> m \<and> m < length s) \<and> ?B m" by simp
    then show "\<exists>m. (1 \<le> m \<and> m < length s) \<and> ?B m" ..
  qed
  also have "\<dots> \<longleftrightarrow> match_episode (drop i s)"
    unfolding match_episode_nth
    by (intro arg_cong [where f = Ex] ext) (auto simp: add.assoc add.commute add.left_commute)
  finally show ?thesis by simp
qed


lemma year_marker_le: "year_marker_at n i \<Longrightarrow> i \<le> length n"
  by (simp add: year_marker_at_def)

lemma search_year_iff:
  "re_search match_year n = Some i \<longleftrightarrow> year_marker_at n i \<and> (\<forall>k<i. \<not> year_marker_at n k)"
  by (auto simp: re_search_Some match_year_drop dest: year_marker_le)

lemma search_year_None: "re_search match_year n = None \<longleftrightarrow> (\<forall>k. \<not> year_marker_at n k)"
  using year_marker_le by (auto simp: re_search_None match_year_drop)

lemma episode_marker_le: "episode_marker_at n j \<Longrightarrow> j \<le> length n"
  by (auto simp: episode_marker_at_def list_ex_iff)

lemma search_episode_iff:
  "re_search match_episode n = Some j
     \<longleftrightarrow> episode_marker_at n j \<and> (\<forall>k<j. \<not> episode_marker_at n k)"
  by (auto simp: re_search_Some match_episode_drop dest: episode_marker_le)

lemma search_episode_None:
  "re_search match_episode n = None \<longleftrightarrow> (\<forall>k. \<not> episode_marker_at n k)"
  using episode_marker_le by (auto simp: re_search_None match_episode_drop)

text \<open>
  Claim C9, as the code has it.  The title is the stripped prefix of the name without
  its extension that stands in front of the first year marker, whenever the name holds a
  year marker; in front of the first episode marker, when it holds no year marker but an
  episode marker; and the whole name without its extension, unstripped, when it holds
  neither.  A year marker decides even when an episode marker stands before it.
\<close>

theorem parse_filename_title:
  "(year_marker_at (fst (splitext filename)) i
      \<and> (\<forall>k<i. \<not> year_marker_at (fst (splitext filename)) k)
      \<longrightarrow> title (parse_filename filename) = str_strip (take i (fst (splitext filename))))
   \<and> ((\<forall>k. \<not> year_marker_at (fst (splitext filename)) k)
        \<and> episode_marker_at (fst (splitext filename)) j
        \<and> (\<forall>k<j. \<not> episode_marker_at (fst (splitext filename)) k)
      \<longrightarrow> title (parse_filename filename) = str_strip (take j (fst (splitext filename))))
   \<and> ((\<forall>k. \<not> year_marker_at (fst (splitext filename)) k)
        \<and> (\<forall>k. \<not> episode_marker_at (fst (splitext filename)) k)
      \<longrightarrow> title (parse_filename filename) = fst (splitext filename))"
proof (intro conjI impI)
  assume "year_marker_at (fst (splitext filename)) i
      \<and> (\<forall>k<i. \<not> year_marker_at (fst (splitext filename)) k)"
  then have "re_search match_year (fst (splitext filename)) = Some i"
    by (simp add: search_year_iff)
  then show "title (parse_filename filename) = str_strip (take i (fst (splitext filename)))"
    by (simp add: parse_filename_def Let_def)
next
  assume "(\<forall>k. \<not> year_marker_at (fst (splitext filename)) k)
        \<and> episode_marker_at (fst (splitext filename)) j
        \<and> (\<forall>k<j. \<not> episode_marker_at (fst (splitext filename)) k)"
  then have "re_search match_year (fst (splitext filename)) = None"
    and "re_search match_episode (fst (splitext filename)) = Some j"
    by (simp_all add: search_year_None search_episode_iff)
  then show "title (parse_filename filename) = str_strip (take j (fst (splitext filename)))"
    by (simp add: parse_filename_def Let_def)
next
  assume "(\<forall>k. \<not> year_marker_at (fst (splitext filename)) k)
        \<and> (\<forall>k. \<not> episode_marker_at (fst (splitext filename)) k)"
  then have "re_search match_year (fst (splitext filename)) = None"
    and "re_search match_episode (fst (splitext filename)) = None"
    by (simp_all add: search_year_None search_episode_None)
  then show "title (parse_filename filename) = fst (splitext filename)"
    by (simp add: parse_filename_def Let_def)
qed

text \<open>The definitions that evaluate the string functions on literals.\<close>

lemmas str_eval = splitext_def rfind_def os_sep_def match_episode_def is_digit_def
  str_strip_def is_space_def

text \<open>The three cases of the title rule on three file names.\<close>

theorem parse_filename_title_witness:
  "title (parse_filename ''The Movie (1999).mp4'') = ''The Movie''
   \<and> title (parse_filename ''show s1e22.avi'') = ''show''
   \<and> title (parse_filename ''plain.mkv'') = ''plain''"
proof -
  have n1: "fst (splitext ''The Movie (1999).mp4'') = ''The Movie (1999)''"
    and n2: "fst (splitext ''show s1e22.avi'') = ''show s1e22''"
    and n3: "fst (splitext ''plain.mkv'') = ''plain''"
    by (simp_all add: str_eval)
  have y1: "re_search match_year ''The Movie (1999)'' = Some 10"
    and y2: "re_search match_year ''show s1e22'' = None"
    and e2: "re_search match_episode ''show s1e22'' = Some 5"
    and y3: "re_search match_year ''plain'' = None"
    and e3: "re_search match_episode ''plain'' = None"
    by (simp_all add: str_eval)
  have m1: "year_marker_at ''The Movie (1999)'' 10
      \<and> (\<forall>k<10. \<not> year_marker_at ''The Movie (1999)'' k)"
    by (rule iffD1 [OF search_year_iff y1])
  have m2: "(\<forall>k. \<not> year_marker_at ''show s1e22'' k) \<and> episode_marker_at ''show s1e22'' 5
      \<and> (\<forall>k<5. \<not> episode_marker_at ''show s1e22'' k)"
    using iffD1 [OF search_year_None y2] iffD1 [OF search_episode_iff e2] by blast
  have m3: "(\<forall>k. \<not> year_marker_at ''plain'' k) \<and> (\<forall>k. \<not> episode_marker_at ''plain'' k)"
    using iffD1 [OF search_year_None y3] iffD1 [OF search_episode_None e3] by blast
  have "title (parse_filename ''The Movie (1999).mp4'') = str_strip (take 10 ''The Movie (1999)'')"
    using parse_filename_title [of "''The Movie (1999).mp4''" 10 0, unfolded n1] m1 by blast
  moreover have "title (parse_filename ''show s1e22.avi'') = str_strip (take 5 ''show s1e22'')"
    using parse_filename_title [of "''show s1e22.avi''" 0 5, unfolded n2] m2 by blast
  moreover have "title (parse_filename ''plain.mkv'') = ''plain''"
    using parse_filename_title [of "''plain.mkv''" 0 0, unfolded n3] m3 by blast
  ultimately show ?thesis by (simp add: str_eval)
qed

text \<open>
  The rule ``whichever marker occurs first'' fails on a name whose episode marker stands
  before its year marker: the code cuts at the year.
\<close>

theorem title_first_marker_counterexample:
  "title (parse_filename ''Show S01E02 (2020).mkv'')
     \<noteq> title_before_first_marker ''Show S01E02 (2020).mkv''
   \<and> title (parse_filename ''Show S01E02 (2020).mkv'') = ''Show S01E02''
   \<and> title_before_first_marker ''Show S01E02 (2020).mkv'' = ''Show''"
  by (simp add: parse_filename_def title_before_first_marker_def str_eval)

section \<open>The reconciler and the composite key\<close>

text \<open>The lookup dictionary holds, for every key, the last existing item with that key.\<close>

lemma foldl_upd_map_of:
  "foldl (\<lambda>keys item. keys(k item \<mapsto> v item)) m0 items
     = m0 ++ map_of (rev (map (\<lambda>e. (k e, v e)) items))"
proof (induction items arbitrary: m0)
  case Nil
  then show ?case by simp
next
  case (Cons a items)
  have "foldl (\<lambda>keys item. keys(k item \<mapsto> v item)) m0 (a # items)
      = (m0(k a \<mapsto> v a)) ++ map_of (rev (map (\<lambda>e. (k e, v e)) items))"
    by (simp only: foldl_Cons Cons.IH)
  also have "\<dots> = m0 ++ map_of (rev (map (\<lambda>e. (k e, v e)) (a # items)))"
    by (simp add: fun_eq_iff map_add_def split: option.splits)
  finally show ?case .
qed

lemma existing_keys_map_of:
  "existing_keys fmt items = map_of (rev (map (\<lambda>e. (composite_key fmt e, PDict e)) items))"
  unfolding existing_keys_def by (simp add: foldl_upd_map_of)


lemma existing_keys_None:
  "existing_keys fmt items k = None \<longleftrightarrow> (\<forall>e\<in>set items. composite_key fmt e \<noteq> k)"
  unfolding existing_keys_map_of by (auto simp: map_of_eq_None_iff image_iff)


lemma has_equal_key_file:
  "dict_get item ''type'' (PStr []) = PStr ''file'' \<Longrightarrow>
     has_equal_key fmt lib ef ed item
       \<longleftrightarrow> existing_keys fmt (or_empty ef) (item_key fmt lib item) \<noteq> None"
  by (auto simp: has_equal_key_def same_kind_existing_def list_ex_iff existing_keys_None)

lemma has_equal_key_directory:
  "dict_get item ''type'' (PStr []) = PStr ''directory'' \<Longrightarrow>
     has_equal_key fmt lib ef ed item
       \<longleftrightarrow> existing_keys fmt (or_empty ed) (item_key fmt lib item) \<noteq> None"
  by (auto simp: has_equal_key_def same_kind_existing_def list_ex_iff existing_keys_None)


text \<open>One turn of the loop, by the kind of the item and by what the lookup finds.\<close>

lemma check_items_other:
  "\<not> is_file_or_directory item \<Longrightarrow>
     check_items fmt lib fk dk (item # rest) acc = check_items fmt lib fk dk rest acc"
  by (cases acc) (simp add: is_file_or_directory_def)

lemma check_items_new:
  "is_file_or_directory item \<Longrightarrow> looked_up fmt lib ef ed item = None \<Longrightarrow>
     check_items fmt lib (existing_keys fmt (or_empty ef)) (existing_keys fmt (or_empty ed))
         (item # rest) (n, d, es)
       = check_items fmt lib (existing_keys fmt (or_empty ef)) (existing_keys fmt (or_empty ed))
           rest (n + 1, d, es)"
  by (auto simp: is_file_or_directory_def looked_up_def item_key_def)

lemma check_items_falsy:
  "is_file_or_directory item \<Longrightarrow> looked_up fmt lib ef ed item = Some v \<Longrightarrow> \<not> py_truthy v \<Longrightarrow>
     check_items fmt lib (existing_keys fmt (or_empty ef)) (existing_keys fmt (or_empty ed))
         (item # rest) (n, d, es)
       = check_items fmt lib (existing_keys fmt (or_empty ef)) (existing_keys fmt (or_empty ed))
           rest (n + 1, d, es)"
  by (auto simp: is_file_or_directory_def looked_up_def item_key_def)

lemma check_items_found:
  "is_file_or_directory item \<Longrightarrow> looked_up fmt lib ef ed item = Some v \<Longrightarrow> py_truthy v \<Longrightarrow>
     check_items fmt lib (existing_keys fmt (or_empty ef)) (existing_keys fmt (or_empty ed))
         (item # rest) (n, d, es)
       = (case compare_item_data item v of
            Inl e \<Rightarrow> Inl e
          | Inr ds \<Rightarrow>
              check_items fmt lib (existing_keys fmt (or_empty ef))
                (existing_keys fmt (or_empty ed)) rest
                (n, d + 1,
                 if ds \<noteq> []
                 then es @ [\<lparr> entry_path = dict_get item ''path'' (PStr []),
                              entry_type = dict_get item ''type'' (PStr []),
                              entry_differences = ds \<rparr>]
                 else es))"
  by (auto simp: is_file_or_directory_def looked_up_def item_key_def split: sum.splits)

lemma looked_up_Some_equal_key:
  "is_file_or_directory item \<Longrightarrow> looked_up fmt lib ef ed item = Some v \<Longrightarrow>
     has_equal_key fmt lib ef ed item"
  by (auto simp: looked_up_def is_file_or_directory_def has_equal_key_file
      has_equal_key_directory split: if_splits)



lemma check_items_duplicates_le:
  "check_items fmt lib (existing_keys fmt (or_empty ef)) (existing_keys fmt (or_empty ed))
       xs (n, d, es) = Inr (n', d', es')
   \<Longrightarrow> d' \<le> d + length (filter (has_equal_key fmt lib ef ed) xs)"
proof (induction xs arbitrary: n d es)
  case Nil
  then show ?case by simp
next
  case (Cons item rest)
  show ?case
  proof (cases "is_file_or_directory item")
    case False
    from Cons.prems have "check_items fmt lib (existing_keys fmt (or_empty ef))
        (existing_keys fmt (or_empty ed)) rest (n, d, es) = Inr (n', d', es')"
      unfolding check_items_other [OF False] .
    from Cons.IH [OF this] show ?thesis by simp
  next
    case True
    show ?thesis
    proof (cases "looked_up fmt lib ef ed item")
      case None
      from Cons.prems have "check_items fmt lib (existing_keys fmt (or_empty ef))
          (existing_keys fmt (or_empty ed)) rest (n + 1, d, es) = Inr (n', d', es')"
        unfolding check_items_new [OF True None] .
      from Cons.IH [OF this] show ?thesis by simp
    next
      case (Some v)
      then have eq: "has_equal_key fmt lib ef ed item"
        using True by (rule looked_up_Some_equal_key [rotated])
      show ?thesis
      proof (cases "py_truthy v")
        case False
        from Cons.prems have "check_items fmt lib (existing_keys fmt (or_empty ef))
            (existing_keys fmt (or_empty ed)) rest (n + 1, d, es) = Inr (n', d', es')"
          unfolding check_items_falsy [OF True Some False] .
        from Cons.IH [OF this] show ?thesis by simp
      next
        case truthy: True
        from Cons.prems obtain ds where
          "check_items fmt lib (existing_keys fmt (or_empty ef))
             (existing_keys fmt (or_empty ed)) rest
             (n, d + 1,
              if ds \<noteq> []
              then es @ [\<lparr> entry_path = dict_get item ''path'' (PStr []),
                           entry_type = dict_get item ''type'' (PStr []),
                           entry_differences = ds \<rparr>]
              else es) = Inr (n', d', es')"
          unfolding check_items_found [OF True Some truthy] by (auto split: sum.splits)
        from Cons.IH [OF this] eq show ?thesis by simp
      qed
    qed
  qed
qed





lemma same_path_other_root_key:
  "dict_get e ''path'' (PStr []) = dict_get item ''path'' (PStr []) \<Longrightarrow>
   py_format fmt (dict_get e ''libraryPath'' (PStr [])) \<noteq> lib \<Longrightarrow>
   composite_key fmt e \<noteq> item_key fmt lib item"
  by (simp add: composite_key_def item_key_def)


lemma check_duplicates_with_existing_unfold:
  "check_duplicates_with_existing fmt xs uid lib ef ed =
     make_report xs (check_items fmt lib (existing_keys fmt (or_empty ef))
        (existing_keys fmt (or_empty ed)) xs (0, 0, []))"
  by (simp add: check_duplicates_with_existing_def)

lemma no_equal_key_report:
  assumes "is_file_or_directory item" and "\<not> has_equal_key fmt lib ef ed item"
  shows "check_duplicates_with_existing fmt [item] uid lib ef ed
           = \<lparr> duplicatesFound = 0, newItems = 1, differences = [], error = None \<rparr>"
proof -
  have lu: "looked_up fmt lib ef ed item = None"
    using assms looked_up_Some_equal_key by (cases "looked_up fmt lib ef ed item") auto
  show ?thesis
    unfolding check_duplicates_with_existing_unfold check_items_new [OF assms(1) lu]
    by (simp add: make_report_def)
qed

text \<open>
  Claim C1.  The reconciler counts at most as many duplicates as there are scanned items
  for which an existing item of the same kind has the same composite key.  An existing
  item with the path of a scanned item and another library root has another key.  A
  scanned file or directory whose path the inventory of its kind holds under other
  library roots only is reported as new.  The scenario of the specification.
\<close>

theorem composite_key_invariant:
  "duplicatesFound (check_duplicates_with_existing fmt scanned uid lib ef ed)
      \<le> length (filter (has_equal_key fmt lib ef ed) scanned)
   \<and> (dict_get e ''path'' (PStr []) = dict_get item ''path'' (PStr [])
        \<and> py_format fmt (dict_get e ''libraryPath'' (PStr [])) \<noteq> lib
      \<longrightarrow> composite_key fmt e \<noteq> item_key fmt lib item)
   \<and> (is_file_or_directory item
        \<and> list_all (\<lambda>e. dict_get e ''path'' (PStr []) = dict_get item ''path'' (PStr [])
                          \<and> py_format fmt (dict_get e ''libraryPath'' (PStr [])) \<noteq> lib)
             (same_kind_existing ef ed item)
      \<longrightarrow> check_duplicates_with_existing fmt [item] uid lib ef ed
            = \<lparr> duplicatesFound = 0, newItems = 1, differences = [], error = None \<rparr>)
   \<and> check_duplicates_with_existing fmt
        [[(''type'', PStr ''file''), (''path'', PStr ''/movies/x.mp4'')]] uid ''/lib-b''
        (Some [[(''libraryPath'', PStr ''/lib-a''), (''path'', PStr ''/movies/x.mp4'')]])
        (Some [])
      = \<lparr> duplicatesFound = 0, newItems = 1, differences = [], error = None \<rparr>"
proof (intro conjI impI)
  show "duplicatesFound (check_duplicates_with_existing fmt scanned uid lib ef ed)
      \<le> length (filter (has_equal_key fmt lib ef ed) scanned)"
  proof (cases "check_items fmt lib (existing_keys fmt (or_empty ef))
        (existing_keys fmt (or_empty ed)) scanned (0, 0, [])")
    case (Inl err)
    then show ?thesis
      by (simp add: check_duplicates_with_existing_unfold make_report_def)
  next
    case (Inr acc)
    obtain n d es where acc: "acc = (n, d, es)" by (cases acc)
    from check_items_duplicates_le [OF Inr [unfolded acc]] show ?thesis
      by (simp add: check_duplicates_with_existing_unfold make_report_def Inr acc)
  qed
next
  assume "dict_get e ''path'' (PStr []) = dict_get item ''path'' (PStr [])
        \<and> py_format fmt (dict_get e ''libraryPath'' (PStr [])) \<noteq> lib"
  then show "composite_key fmt e \<noteq> item_key fmt lib item"
    by (simp add: same_path_other_root_key)
next
  assume a: "is_file_or_directory item
        \<and> list_all (\<lambda>e. dict_get e ''path'' (PStr []) = dict_get item ''path'' (PStr [])
                          \<and> py_format fmt (dict_get e ''libraryPath'' (PStr [])) \<noteq> lib)
             (same_kind_existing ef ed item)"
  then have "\<not> has_equal_key fmt lib ef ed item"
    by (auto simp: has_equal_key_def list_ex_iff list_all_iff dest: same_path_other_root_key)
  with a show "check_duplicates_with_existing fmt [item] uid lib ef ed
            = \<lparr> duplicatesFound = 0, newItems = 1, differences = [], error = None \<rparr>"
    by (simp add: no_equal_key_report)
next
  have "\<not> has_equal_key fmt ''/lib-b'' 
          (Some [[(''libraryPath'', PStr ''/lib-a''), (''path'', PStr ''/movies/x.mp4'')]])
          (Some []) [(''type'', PStr ''file''), (''path'', PStr ''/movies/x.mp4'')]"
    by (simp add: has_equal_key_def same_kind_existing_def or_empty_def dict_get_def
        composite_key_def item_key_def)
  then show "check_duplicates_with_existing fmt
        [[(''type'', PStr ''file''), (''path'', PStr ''/movies/x.mp4'')]] uid ''/lib-b''
        (Some [[(''libraryPath'', PStr ''/lib-a''), (''path'', PStr ''/movies/x.mp4'')]])
        (Some [])
      = \<lparr> duplicatesFound = 0, newItems = 1, differences = [], error = None \<rparr>"
    by (intro no_equal_key_report) (simp_all add: is_file_or_directory_def dict_get_def)
qed

text \<open>
  The same directory path under two library roots: scanning the second root against an
  inventory that holds the path under the first root reports one new item.
\<close>

theorem composite_key_invariant_witness:
  "composite_key (\<lambda>v. ''None'')
       [(''libraryPath'', PStr ''/media/library-a''), (''path'', PStr ''/tv/series'')]
     \<noteq> item_key (\<lambda>v. ''None'') ''/media/library-b''
         [(''type'', PStr ''directory''), (''path'', PStr ''/tv/series'')]
   \<and> check_duplicates_with_existing (\<lambda>v. ''None'')
        [[(''type'', PStr ''directory''), (''path'', PStr ''/tv/series'')]] ''user123''
        ''/media/library-b'' None
        (Some [[(''libraryPath'', PStr ''/media/library-a''), (''path'', PStr ''/tv/series'')]])
      = \<lparr> duplicatesFound = 0, newItems = 1, differences = [], error = None \<rparr>"
  using composite_key_invariant [of "\<lambda>v. ''None''" "[]" "''user123''" "''/media/library-b''" None
      "Some [[(''libraryPath'', PStr ''/media/library-a''), (''path'', PStr ''/tv/series'')]]"
      "[(''libraryPath'', PStr ''/media/library-a''), (''path'', PStr ''/tv/series'')]"
      "[(''type'', PStr ''directory''), (''path'', PStr ''/tv/series'')]"]
  by (simp add: is_file_or_directory_def same_kind_existing_def or_empty_def dict_get_def)




section \<open>The two passes\<close>

lemma walk_step_refl: "walk_step st 0 st"
  by (simp add: walk_step_def)

lemma advanced_mono:
  "advanced p k s \<Longrightarrow> k \<le> k' \<Longrightarrow> advanced p k' s"
  by (auto simp: advanced_def)

lemma advanced_trans:
  assumes "progress st1 = (progress st)\<lparr> processed_items := processed_items (progress st) + k1,
                                   current_path := current_path (progress st1) \<rparr>"
    and "advanced (progress st1) k2 s"
  shows "advanced (progress st) (k1 + k2) s"
proof -
  from assms(2) have s: "s = (progress st1)\<lparr> processed_items := processed_items s, current_path := current_path s \<rparr>"
    and le: "processed_items s \<le> processed_items (progress st1) + k2"
    by (simp_all add: advanced_def)
  have "processed_items (progress st1) = processed_items (progress st) + k1"
    by (subst assms(1)) simp
  with le have "processed_items s \<le> processed_items (progress st) + (k1 + k2)" by simp
  moreover have "s = (progress st)\<lparr> processed_items := processed_items s, current_path := current_path s \<rparr>"
    by (subst s, subst assms(1)) simp
  ultimately show ?thesis by (simp add: advanced_def)
qed

lemma counting_append:
  "map (\<lambda>i. (p::nat) + i) [1..<Suc k1] @ map (\<lambda>i. p + k1 + i) [1..<Suc k2]
     = map (\<lambda>i. p + i) [1..<Suc (k1 + k2)]"
proof (induction k2)
  case 0
  then show ?case by simp
next
  case (Suc k2)
  have "map (\<lambda>i. p + k1 + i) [1..<Suc (Suc k2)]
      = map (\<lambda>i. p + k1 + i) [1..<Suc k2] @ [p + k1 + Suc k2]" by simp
  moreover have "map (\<lambda>i. p + i) [1..<Suc (k1 + Suc k2)]
      = map (\<lambda>i. p + i) [1..<Suc (k1 + k2)] @ [p + (k1 + Suc k2)]" by simp
  ultimately show ?case using Suc by (simp del: upt_Suc)
qed

lemma walk_step_trans:
  assumes "walk_step st k1 st1" and "walk_step st1 k2 st2"
  shows "walk_step st (k1 + k2) st2"
proof -
  from assms(1) obtain new1 more1 where
    p1: "progress st1 = (progress st)\<lparr> processed_items := processed_items (progress st) + k1,
                                   current_path := current_path (progress st1) \<rparr>"
    and n1: "published st1 = published st @ new1" "list_all (advanced (progress st) k1) new1"
      "map processed_items new1 = map (\<lambda>i. processed_items (progress st) + i) [1..<Suc k1]"
    and m1: "results st1 = results st @ more1" "length more1 \<le> k1" "list_all scanned_item more1"
    unfolding walk_step_def by blast
  from assms(2) obtain new2 more2 where
    p2: "progress st2 = (progress st1)\<lparr> processed_items := processed_items (progress st1) + k2,
                                   current_path := current_path (progress st2) \<rparr>"
    and n2: "published st2 = published st1 @ new2" "list_all (advanced (progress st1) k2) new2"
      "map processed_items new2 = map (\<lambda>i. processed_items (progress st1) + i) [1..<Suc k2]"
    and m2: "results st2 = results st1 @ more2" "length more2 \<le> k2" "list_all scanned_item more2"
    unfolding walk_step_def by blast
  have pr1: "processed_items (progress st1) = processed_items (progress st) + k1"
    by (subst p1) simp
  have "progress st2 = (progress st)\<lparr> processed_items := processed_items (progress st) + (k1 + k2),
                                   current_path := current_path (progress st2) \<rparr>"
    by (subst p2, subst p1) (simp add: pr1)
  moreover have "published st2 = published st @ (new1 @ new2)"
    using n1(1) n2(1) by simp
  moreover have "list_all (advanced (progress st) (k1 + k2)) (new1 @ new2)"
    using n1(2) n2(2) advanced_trans [OF p1]
    by (auto simp: list_all_iff intro: advanced_mono)
  moreover have "map processed_items (new1 @ new2)
      = map (\<lambda>i. processed_items (progress st) + i) [1..<Suc (k1 + k2)]"
    using n1(3) n2(3) counting_append [of "processed_items (progress st)" k1 k2]
    by (simp add: pr1)
  moreover have "results st2 = results st @ (more1 @ more2)" using m1(1) m2(1) by simp
  moreover have "length (more1 @ more2) \<le> k1 + k2" using m1(2) m2(2) by simp
  moreover have "list_all scanned_item (more1 @ more2)" using m1(3) m2(3) by simp
  ultimately show ?thesis unfolding walk_step_def by blast
qed


lemma walk_step_status:
  "walk_step st k st' \<Longrightarrow> status (progress st') = status (progress st)"
  unfolding walk_step_def by (elim conjE, erule ssubst) simp

lemma process_directory_item:
  "process_directory io dir_path = Some info \<Longrightarrow> scanned_item info \<and> info \<noteq> []"
  by (auto simp: process_directory_def scanned_item_def is_file_or_directory_def dict_get_def
      Let_def split: sum.splits)

lemma process_file_item:
  "process_file io file_path ex = Some info \<Longrightarrow> scanned_item info \<and> info \<noteq> []"
  by (auto simp: process_file_def scanned_item_def is_file_or_directory_def dict_get_def
      Let_def split: sum.splits)

lemma walk_step_entry:
  assumes "st1 = st \<or> (\<exists>info. scanned_item info \<and> st1 = st\<lparr> results := results st @ [info] \<rparr>)"
  shows "walk_step st 1 (notify_progress (count_processed st1))"
proof -
  from assms have pr: "progress st1 = progress st" and pu: "published st1 = published st"
    and rs: "\<exists>more. results st1 = results st @ more \<and> length more \<le> 1 \<and> list_all scanned_item more"
    by auto
  have "advanced (progress st) 1 ((progress st)\<lparr> processed_items := processed_items (progress st) + 1 \<rparr>)"
    by (simp add: advanced_def)
  then show ?thesis
    using rs by (simp add: walk_step_def notify_progress_def count_processed_def pr pu)
qed

lemma process_directories_step:
  "status (progress st) \<noteq> ''cancelled'' \<Longrightarrow>
     walk_step st (length ds) (process_directories io r ds st)"
proof (induction ds arbitrary: st)
  case Nil
  then show ?case by (simp add: walk_step_refl)
next
  case (Cons d ds)
  define st1 where "st1 = (case process_directory io (path_join r d) of
                      None \<Rightarrow> st
                    | Some dir_info \<Rightarrow>
                        if dir_info \<noteq> [] then st\<lparr> results := results st @ [dir_info] \<rparr> else st)"
  define st2 where "st2 = notify_progress (count_processed st1)"
  have "st1 = st \<or> (\<exists>info. scanned_item info \<and> st1 = st\<lparr> results := results st @ [info] \<rparr>)"
    unfolding st1_def by (auto split: option.splits dest: process_directory_item)
  then have one: "walk_step st 1 st2" unfolding st2_def by (rule walk_step_entry)
  then have "status (progress st2) \<noteq> ''cancelled''"
    using Cons.prems by (simp add: walk_step_status)
  then have "walk_step st2 (length ds) (process_directories io r ds st2)" by (rule Cons.IH)
  from walk_step_trans [OF one this] Cons.prems show ?case
    by (simp add: st1_def st2_def Let_def)
qed

lemma process_files_step:
  "status (progress st) \<noteq> ''cancelled'' \<Longrightarrow>
     walk_step st (length (filter is_media_file fs)) (process_files io ex r fs st)"
proof (induction fs arbitrary: st)
  case Nil
  then show ?case by (simp add: walk_step_refl)
next
  case (Cons f fs)
  show ?case
  proof (cases "is_media_file f")
    case False
    with Cons show ?thesis by simp
  next
    case True
    define st1 where "st1 = (case process_file io (path_join r f) ex of
                      None \<Rightarrow> st
                    | Some file_info \<Rightarrow>
                        if file_info \<noteq> [] then st\<lparr> results := results st @ [file_info] \<rparr> else st)"
    define st2 where "st2 = notify_progress (count_processed st1)"
    have "st1 = st \<or> (\<exists>info. scanned_item info \<and> st1 = st\<lparr> results := results st @ [info] \<rparr>)"
      unfolding st1_def by (auto split: option.splits dest: process_file_item)
    then have one: "walk_step st 1 st2" unfolding st2_def by (rule walk_step_entry)
    then have "status (progress st2) \<noteq> ''cancelled''"
      using Cons.prems by (simp add: walk_step_status)
    then have "walk_step st2 (length (filter is_media_file fs)) (process_files io ex r fs st2)"
      by (rule Cons.IH)
    from walk_step_trans [OF one this] Cons.prems True show ?thesis
      by (simp add: st1_def st2_def Let_def)
  qed
qed

lemma count_body_eq:
  "count_body path r dirs files n = Inr (dirs_to_visit path r dirs, n + entries_here dirs files)"
  by (simp add: count_body_def dirs_to_visit_def entries_here_def Let_def)

lemma scan_body_step:
  assumes "status (progress st) \<noteq> ''cancelled''"
  shows "\<exists>st'. scan_body io ex path r dirs files st = Inr (dirs_to_visit path r dirs, st')
          \<and> walk_step st (entries_here dirs files) st'"
proof -
  let ?dirs1 = "filter (\<lambda>d. \<not> startswith d ''.'' \<and> d \<notin> set [''@eaDir'']) dirs"
  let ?st1 = "st\<lparr> progress := (progress st)\<lparr> current_path := r \<rparr> \<rparr>"
  let ?st2 = "process_directories io r ?dirs1 ?st1"
  let ?st3 = "process_files io ex r files ?st2"
  have s1: "walk_step st 0 ?st1" by (simp add: walk_step_def)
  have c1: "status (progress ?st1) \<noteq> ''cancelled''" using assms by simp
  from process_directories_step [OF c1] have s2: "walk_step ?st1 (length ?dirs1) ?st2" .
  from walk_step_status [OF s2] c1 have c2: "status (progress ?st2) \<noteq> ''cancelled''" by simp
  from process_files_step [OF c2]
  have s3: "walk_step ?st2 (length (filter is_media_file files)) ?st3" .
  from walk_step_trans [OF walk_step_trans [OF s1 s2] s3]
  have "walk_step st (entries_here dirs files) ?st3" by (simp add: entries_here_def)
  then show ?thesis
    using assms by (simp add: scan_body_def dirs_to_visit_def Let_def)
qed

lemma scan_body_cancelled:
  "status (progress st) = ''cancelled'' \<Longrightarrow> scan_body io ex path r dirs files st = Inl st"
  by (simp add: scan_body_def)


lemma count_walk_add_aux:
  fixes n0 :: nat
  shows "body = count_body path \<Longrightarrow> \<exists>c. \<forall>n. os_walk body r t n = (n + c, False)"
    and "body = count_body path \<Longrightarrow> \<exists>c. \<forall>n. os_walk_dirs body r ds ns n = (n + c, False)"
proof (induction body r t n0 and body r ds ns n0 rule: os_walk_os_walk_dirs.induct)
  case (1 body r st)
  then show ?case by simp
next
  case (2 body r ds fs st)
  from "2.prems" have b: "\<And>n. body r (map fst ds) fs n
      = Inr (dirs_to_visit path r (map fst ds), n + entries_here (map fst ds) fs)"
    by (simp add: count_body_eq)
  from "2.IH" [OF b refl "2.prems"] obtain c
    where c: "\<And>n. os_walk_dirs body r ds (dirs_to_visit path r (map fst ds)) n = (n + c, False)"
    by blast
  have "\<forall>n. os_walk body r (Dir ds fs) n = (n + (entries_here (map fst ds) fs + c), False)"
    by (simp add: b c)
  then show ?case ..
next
  case (3 body r ds st)
  then show ?case by simp
next
  case (4 body r ds dirname rest st)
  show ?case
  proof (cases "map_of ds dirname")
    case None
    from "4.IH"(1) [OF None "4.prems"] obtain c
      where c: "\<And>n. os_walk_dirs body r ds rest n = (n + c, False)" by blast
    have "\<forall>n. os_walk_dirs body r ds (dirname # rest) n = (n + c, False)"
      by (simp add: None c)
    then show ?thesis ..
  next
    case (Some sub)
    from "4.IH"(2) [OF Some "4.prems"] obtain c1
      where c1: "\<And>n. os_walk body (path_join r dirname) sub n = (n + c1, False)" by blast
    have e: "(st + c1, False) = os_walk body (path_join r dirname) sub st"
      by (simp add: c1)
    from "4.IH"(3) [OF Some e refl "4.prems"] obtain c2
      where c2: "\<And>n. os_walk_dirs body r ds rest n = (n + c2, False)" by blast
    have "\<forall>n. os_walk_dirs body r ds (dirname # rest) n = (n + (c1 + c2), False)"
      by (simp add: Some c1 c2)
    then show ?thesis ..
  qed
qed

lemma count_walk_add:
  "os_walk (count_body path) r t n = (n + fst (os_walk (count_body path) r t 0), False)"
proof -
  from count_walk_add_aux(1) [OF refl, of path r t] obtain c
    where c: "\<And>n. os_walk (count_body path) r t n = (n + c, False)" by blast
  show ?thesis by (simp add: c)
qed

lemma count_walk_dirs_add:
  "os_walk_dirs (count_body path) r ds ns n
     = (n + fst (os_walk_dirs (count_body path) r ds ns 0), False)"
proof -
  from count_walk_add_aux(2) [OF refl, of path r ds ns] obtain c
    where c: "\<And>n. os_walk_dirs (count_body path) r ds ns n = (n + c, False)" by blast
  show ?thesis by (simp add: c)
qed


lemma scan_walk_aux:
  fixes n0 :: nat
  shows "body = count_body path \<Longrightarrow>
      (\<forall>st. status (progress st) \<noteq> ''cancelled'' \<longrightarrow>
         (\<exists>st'. os_walk (scan_body io ex path) r t st = (st', False)
            \<and> walk_step st (fst (os_walk body r t 0)) st'))"
    and "body = count_body path \<Longrightarrow>
      (\<forall>st. status (progress st) \<noteq> ''cancelled'' \<longrightarrow>
         (\<exists>st'. os_walk_dirs (scan_body io ex path) r ds ns st = (st', False)
            \<and> walk_step st (fst (os_walk_dirs body r ds ns 0)) st'))"
proof (induction body r t n0 and body r ds ns n0 rule: os_walk_os_walk_dirs.induct)
  case (1 body r st)
  then show ?case by (simp add: walk_step_refl)
next
  case (2 body r ds fs st0)
  let ?dv = "dirs_to_visit path r (map fst ds)"
  let ?k = "entries_here (map fst ds) fs"
  from "2.prems" have b: "\<And>n. body r (map fst ds) fs n = Inr (?dv, n + ?k)"
    by (simp add: count_body_eq)
  note ih = "2.IH" [OF b refl "2.prems", rule_format]
  have cnt: "fst (os_walk body r (Dir ds fs) 0) = ?k + fst (os_walk_dirs body r ds ?dv 0)"
  proof -
    have "os_walk body r (Dir ds fs) 0 = os_walk_dirs body r ds ?dv ?k" by (simp add: b)
    also have "\<dots> = (?k + fst (os_walk_dirs body r ds ?dv 0), False)"
      unfolding "2.prems" by (rule count_walk_dirs_add)
    finally show ?thesis by simp
  qed
  show ?case
  proof (intro allI impI)
    fix st :: scan_state
    assume nc: "status (progress st) \<noteq> ''cancelled''"
    from scan_body_step [OF nc] obtain st1
      where st1: "scan_body io ex path r (map fst ds) fs st = Inr (?dv, st1)"
        and w1: "walk_step st ?k st1" by blast
    from walk_step_status [OF w1] nc have "status (progress st1) \<noteq> ''cancelled''" by simp
    from ih [OF this] obtain st'
      where st': "os_walk_dirs (scan_body io ex path) r ds ?dv st1 = (st', False)"
        and w2: "walk_step st1 (fst (os_walk_dirs body r ds ?dv 0)) st'" by blast
    have "os_walk (scan_body io ex path) r (Dir ds fs) st = (st', False)"
      by (simp add: st1 st')
    moreover have "walk_step st (fst (os_walk body r (Dir ds fs) 0)) st'"
      unfolding cnt by (rule walk_step_trans [OF w1 w2])
    ultimately show "\<exists>st'. os_walk (scan_body io ex path) r (Dir ds fs) st = (st', False)
        \<and> walk_step st (fst (os_walk body r (Dir ds fs) 0)) st'" by blast
  qed
next
  case (3 body r ds st)
  then show ?case by (simp add: walk_step_refl)
next
  case (4 body r ds dirname rest st0)
  show ?case
  proof (cases "map_of ds dirname")
    case None
    from "4.IH"(1) [OF None "4.prems"] show ?thesis by (simp add: None)
  next
    case (Some sub)
    note ih1 = "4.IH"(2) [OF Some "4.prems", rule_format]
    let ?c1 = "fst (os_walk body (path_join r dirname) sub 0)"
    have sub: "\<And>n. os_walk body (path_join r dirname) sub n = (n + ?c1, False)"
      unfolding "4.prems" by (rule count_walk_add)
    have e: "(st0 + ?c1, False) = os_walk body (path_join r dirname) sub st0"
      using sub [of st0] by simp
    note ih2 = "4.IH"(3) [OF Some e refl "4.prems", rule_format]
    have cnt: "fst (os_walk_dirs body r ds (dirname # rest) 0)
        = ?c1 + fst (os_walk_dirs body r ds rest 0)"
    proof -
      have "os_walk_dirs body r ds (dirname # rest) 0 = os_walk_dirs body r ds rest ?c1"
        using sub [of 0]
        by (cases "os_walk body (path_join r dirname) sub 0") (auto simp: Some)
      also have "\<dots> = (?c1 + fst (os_walk_dirs body r ds rest 0), False)"
        unfolding "4.prems" by (rule count_walk_dirs_add)
      finally show ?thesis by simp
    qed
    show ?thesis
    proof (intro allI impI)
      fix st :: scan_state
      assume nc: "status (progress st) \<noteq> ''cancelled''"
      from ih1 [OF nc] obtain st1
        where st1: "os_walk (scan_body io ex path) (path_join r dirname) sub st = (st1, False)"
          and w1: "walk_step st ?c1 st1" by blast
      from walk_step_status [OF w1] nc have "status (progress st1) \<noteq> ''cancelled''" by simp
      from ih2 [OF this] obtain st'
        where st': "os_walk_dirs (scan_body io ex path) r ds rest st1 = (st', False)"
          and w2: "walk_step st1 (fst (os_walk_dirs body r ds rest 0)) st'" by blast
      have "os_walk_dirs (scan_body io ex path) r ds (dirname # rest) st = (st', False)"
        by (simp add: Some st1 st')
      moreover have "walk_step st (fst (os_walk_dirs body r ds (dirname # rest) 0)) st'"
        unfolding cnt by (rule walk_step_trans [OF w1 w2])
      ultimately show "\<exists>st'. os_walk_dirs (scan_body io ex path) r ds (dirname # rest) st
            = (st', False)
          \<and> walk_step st (fst (os_walk_dirs body r ds (dirname # rest) 0)) st'" by blast
    qed
  qed
qed

lemma scan_walk_step:
  assumes "status (progress st) \<noteq> ''cancelled''"
  shows "walk_step st (count_items_sync path tree) (scan_directory_sync io ex path tree st)"
  using scan_walk_aux(1) [OF refl, where path = path and r = path and t = tree and io = io
      and ex = ex, rule_format, OF assms]
  by (auto simp: scan_directory_sync_def count_items_sync_def)

lemma scan_walk_cancelled:
  assumes "status (progress st) = ''cancelled''"
  shows "scan_directory_sync io ex path tree st = st"
  using assms by (cases tree) (simp_all add: scan_directory_sync_def scan_body_cancelled)

lemma duplicate_step_counters:
  "processed_items (duplicate_step fmt db now lib cd uid ef ed rs p) = processed_items p
   \<and> total_items (duplicate_step fmt db now lib cd uid ef ed rs p) = total_items p"
  by (simp add: duplicate_step_def Let_def split: option.splits sum.splits prod.splits)

lemma finish_scan_counters:
  "processed_items (finish_scan fmt db now lib cd uid ef ed st) = processed_items (progress st)
   \<and> total_items (finish_scan fmt db now lib cd uid ef ed st) = total_items (progress st)
   \<and> status (finish_scan fmt db now lib cd uid ef ed st) = ''completed''"
  by (simp add: finish_scan_def duplicate_step_counters)

lemma process_pass_counters:
  "processed_items (progress (process_pass io ex lib tree p))
     = processed_items (progress (scan_directory_sync io ex lib tree
          \<lparr> progress = p, results = [], published = [] \<rparr>))
   \<and> total_items (progress (process_pass io ex lib tree p))
     = total_items (progress (scan_directory_sync io ex lib tree
          \<lparr> progress = p, results = [], published = [] \<rparr>))"
  by (simp add: process_pass_def Let_def)

lemma walk_step_processed:
  "walk_step st k st' \<Longrightarrow> processed_items (progress st') = processed_items (progress st) + k"
  unfolding walk_step_def by (elim conjE, erule ssubst) simp

lemma walk_step_total:
  "walk_step st k st' \<Longrightarrow> total_items (progress st') = total_items (progress st)"
  unfolding walk_step_def by (elim conjE, erule ssubst) simp

lemma walk_step_published:
  "walk_step st k st' \<Longrightarrow>
     map processed_items (drop (length (published st)) (published st'))
       = map (\<lambda>i. processed_items (progress st) + i) [1..<Suc k]"
  unfolding walk_step_def by auto

text \<open>
  Claim C4.  A processing pass that starts uncancelled raises the number of processed
  items by exactly the number the counting pass finds on the same tree, and publishes one
  snapshot per entry, counting up one by one.  A scan whose two passes find the same tree,
  started with no item processed and not cancelled, ends completed with as many items
  processed as counted.
\<close>

theorem count_process_agreement:
  "(status p \<noteq> ''cancelled'' \<longrightarrow>
      processed_items (progress (scan_directory_sync io ex path tree
          \<lparr> progress = p, results = rs, published = pub \<rparr>))
        = processed_items p + count_items_sync path tree
      \<and> map processed_items (drop (length pub) (published (scan_directory_sync io ex path tree
          \<lparr> progress = p, results = rs, published = pub \<rparr>)))
        = map (\<lambda>i. processed_items p + i) [1..<Suc (count_items_sync path tree)])
   \<and> (status p \<noteq> ''cancelled'' \<and> processed_items p = 0 \<longrightarrow>
        status (run_scan_async io fmt db now tree tree path ex cd uid ef ed p) = ''completed''
        \<and> processed_items (run_scan_async io fmt db now tree tree path ex cd uid ef ed p)
            = total_items (run_scan_async io fmt db now tree tree path ex cd uid ef ed p))"
proof (intro conjI impI)
  assume nc: "status p \<noteq> ''cancelled''"
  let ?st = "\<lparr> progress = p, results = rs, published = pub \<rparr>"
  from nc have "status (progress ?st) \<noteq> ''cancelled''" by simp
  from scan_walk_step [OF this]
  have w: "walk_step ?st (count_items_sync path tree) (scan_directory_sync io ex path tree ?st)" .
  from walk_step_processed [OF w]
  show "processed_items (progress (scan_directory_sync io ex path tree ?st))
        = processed_items p + count_items_sync path tree" by simp
  from walk_step_published [OF w]
  show "map processed_items (drop (length pub) (published (scan_directory_sync io ex path tree ?st)))
        = map (\<lambda>i. processed_items p + i) [1..<Suc (count_items_sync path tree)]" by simp
next
  assume a: "status p \<noteq> ''cancelled'' \<and> processed_items p = 0"
  show "status (run_scan_async io fmt db now tree tree path ex cd uid ef ed p) = ''completed''"
    by (simp add: run_scan_async_def finish_scan_counters)
  let ?p1 = "count_pass path tree p"
  let ?st = "\<lparr> progress = ?p1, results = [], published = [] \<rparr>"
  from a have "status (progress ?st) \<noteq> ''cancelled''" by (simp add: count_pass_def)
  from scan_walk_step [OF this]
  have w: "walk_step ?st (count_items_sync path tree) (scan_directory_sync io ex path tree ?st)" .
  from walk_step_processed [OF w] walk_step_total [OF w] a
  show "processed_items (run_scan_async io fmt db now tree tree path ex cd uid ef ed p)
      = total_items (run_scan_async io fmt db now tree tree path ex cd uid ef ed p)"
    by (simp add: run_scan_async_def finish_scan_counters process_pass_counters count_pass_def)
qed

lemmas walk_eval = count_items_sync_def count_body_def startswith_def count_sep_def
  max_scan_depth_def path_join_def is_media_file_def supported_video_extensions_def
  supported_audio_extensions_def supported_subtitle_extensions_def str_lower_def
  lower_char_def is_upper_ascii_def

text \<open>
  A library with a hidden directory, a subdirectory and a file that is no media file:
  three entries are counted and three are processed.
\<close>

theorem count_process_agreement_witness:
  "count_items_sync ''/lib''
      (Dir [(''sub'', Dir [] [''b.mkv'', ''notes.txt'']), (''.git'', Dir [] [''c.mp4''])]
         [''a.mp4'']) = 3
   \<and> status (run_scan_async
        \<lparr> get_file_metadata = (\<lambda>p. Inr [(''size'', PInt 1)]), list_files = (\<lambda>p. Inr []),
          extract_video_metadata = (\<lambda>p. Inl MetadataExtractionError) \<rparr>
        (\<lambda>v. ''None'') \<lparr> initialized = False, mediaFiles = [], mediaDirectories = [] \<rparr> 9
        (Dir [(''sub'', Dir [] [''b.mkv'', ''notes.txt'']), (''.git'', Dir [] [''c.mp4''])]
           [''a.mp4''])
        (Dir [(''sub'', Dir [] [''b.mkv'', ''notes.txt'']), (''.git'', Dir [] [''c.mp4''])]
           [''a.mp4''])
        ''/lib'' False False None None None (new_progress ''s1'' ''/lib'' 0)) = ''completed''
   \<and> processed_items (run_scan_async
        \<lparr> get_file_metadata = (\<lambda>p. Inr [(''size'', PInt 1)]), list_files = (\<lambda>p. Inr []),
          extract_video_metadata = (\<lambda>p. Inl MetadataExtractionError) \<rparr>
        (\<lambda>v. ''None'') \<lparr> initialized = False, mediaFiles = [], mediaDirectories = [] \<rparr> 9
        (Dir [(''sub'', Dir [] [''b.mkv'', ''notes.txt'']), (''.git'', Dir [] [''c.mp4''])]
           [''a.mp4''])
        (Dir [(''sub'', Dir [] [''b.mkv'', ''notes.txt'']), (''.git'', Dir [] [''c.mp4''])]
           [''a.mp4''])
        ''/lib'' False False None None None (new_progress ''s1'' ''/lib'' 0)) = 3"
proof -
  let ?tree = "Dir [(''sub'', Dir [] [''b.mkv'', ''notes.txt'']), (''.git'', Dir [] [''c.mp4''])]
         [''a.mp4'']"
  let ?io = "\<lparr> get_file_metadata = (\<lambda>p. Inr [(''size'', PInt 1)]), list_files = (\<lambda>p. Inr []),
          extract_video_metadata = (\<lambda>p. Inl MetadataExtractionError) \<rparr>"
  let ?db = "\<lparr> initialized = False, mediaFiles = [], mediaDirectories = [] \<rparr>"
  let ?run = "run_scan_async ?io (\<lambda>v. ''None'') ?db 9 ?tree ?tree ''/lib'' False False None None
      None (new_progress ''s1'' ''/lib'' 0)"
  have c: "count_items_sync ''/lib'' ?tree = 3"
    by (simp add: walk_eval str_eval)
  have t: "total_items ?run = count_items_sync ''/lib'' ?tree"
    using scan_walk_step [of "\<lparr> progress = count_pass ''/lib'' ?tree (new_progress ''s1'' ''/lib'' 0),
        results = [], published = [] \<rparr>" "''/lib''" ?tree ?io False, THEN walk_step_total]
    by (simp add: run_scan_async_def finish_scan_counters process_pass_counters count_pass_def
        new_progress_def)
  have "status (new_progress ''s1'' ''/lib'' 0) \<noteq> ''cancelled''
      \<and> processed_items (new_progress ''s1'' ''/lib'' 0) = 0"
    by (simp add: new_progress_def)
  with count_process_agreement [of "new_progress ''s1'' ''/lib'' 0" ?io False "''/lib''" ?tree
      "[]" "[]" "\<lambda>v. ''None''" ?db 9 False None None None]
  have "status ?run = ''completed'' \<and> processed_items ?run = total_items ?run" by blast
  with c t show ?thesis by simp
qed

section \<open>The percentage\<close>













section \<open>The duplicate check inside a scan\<close>

lemma process_pass_progress:
  "scan_results (progress (process_pass io ex lib tree p)) = results (process_pass io ex lib tree p)
   \<and> results (process_pass io ex lib tree p)
       = results (scan_directory_sync io ex lib tree \<lparr> progress = p, results = [], published = [] \<rparr>)"
  by (simp add: process_pass_def Let_def)

lemma walk_step_progress:
  "walk_step st k st' \<Longrightarrow>
     \<exists>cp. progress st' = (progress st)\<lparr> processed_items := processed_items (progress st) + k,
                                          current_path := cp \<rparr>"
  unfolding walk_step_def by blast

lemma walk_progress:
  "\<exists>n cp. progress (scan_directory_sync io ex lib tree \<lparr> progress = q, results = [], published = [] \<rparr>)
      = q\<lparr> processed_items := n, current_path := cp \<rparr>"
proof (cases "status q = ''cancelled''")
  case True
  then have "scan_directory_sync io ex lib tree \<lparr> progress = q, results = [], published = [] \<rparr>
      = \<lparr> progress = q, results = [], published = [] \<rparr>"
    by (intro scan_walk_cancelled) simp
  then have "progress (scan_directory_sync io ex lib tree
      \<lparr> progress = q, results = [], published = [] \<rparr>)
      = q\<lparr> processed_items := processed_items q, current_path := current_path q \<rparr>" by simp
  then show ?thesis by blast
next
  case False
  then have "status (progress \<lparr> progress = q, results = [], published = [] \<rparr>) \<noteq> ''cancelled''"
    by simp
  from walk_step_progress [OF scan_walk_step [OF this, of lib tree io ex]]
  show ?thesis by auto
qed

text \<open>
  Claim C10.  With duplicate checking requested and no caller id (or an empty one), the
  task ends with the record of the processing pass, completed: whatever lists of existing
  items were supplied, no report is attached and the results are those of the walk.
\<close>

theorem caller_id_gate:
  "(uid = None \<or> uid = Some [] \<longrightarrow>
      run_scan_async io fmt db now tree1 tree2 lib ex True uid ef ed p
        = (progress (process_pass io ex lib tree2 (count_pass lib tree1 p)))
            \<lparr> status := ''completed'', end_time := Some now \<rparr>)
   \<and> duplicate_report (run_scan_async io fmt db now tree1 tree2 lib ex True None ef ed
        (new_progress sid lib t0)) = None
   \<and> scan_results (run_scan_async io fmt db now tree1 tree2 lib ex True None ef ed
        (new_progress sid lib t0))
      = results (scan_directory_sync io ex lib tree2
          \<lparr> progress = count_pass lib tree1 (new_progress sid lib t0), results = [],
            published = [] \<rparr>)
   \<and> status (run_scan_async io fmt db now tree1 tree2 lib ex True None ef ed
        (new_progress sid lib t0)) = ''completed''"
proof -
  have gate: "run_scan_async io fmt db now tree1 tree2 lib ex True u ef ed q
        = (progress (process_pass io ex lib tree2 (count_pass lib tree1 q)))
            \<lparr> status := ''completed'', end_time := Some now \<rparr>"
    if "u = None \<or> u = Some []" for u q
    using that by (auto simp: run_scan_async_def finish_scan_def duplicate_step_def)
  have dr: "duplicate_report (progress (process_pass io ex lib tree2 (count_pass lib tree1 q)))
      = duplicate_report q" for q
  proof -
    from walk_progress [of io ex lib tree2 "count_pass lib tree1 q"] obtain n cp
      where "progress (scan_directory_sync io ex lib tree2
          \<lparr> progress = count_pass lib tree1 q, results = [], published = [] \<rparr>)
        = (count_pass lib tree1 q)\<lparr> processed_items := n, current_path := cp \<rparr>" by blast
    then show ?thesis by (simp add: process_pass_def Let_def count_pass_def)
  qed
  show ?thesis
    using gate [of uid p] gate [of None "new_progress sid lib t0"]
      dr [of "new_progress sid lib t0"]
    by (simp add: process_pass_progress) (simp add: new_progress_def)
qed


text \<open>
  A library holding one file that the supplied inventory already lists: without a caller
  id the file stays in the results and no report is made.
\<close>

theorem caller_id_gate_witness:
  "duplicate_report (run_scan_async
        \<lparr> get_file_metadata = (\<lambda>p. Inr [(''size'', PInt 1)]), list_files = (\<lambda>p. Inr []),
          extract_video_metadata = (\<lambda>p. Inl MetadataExtractionError) \<rparr>
        (\<lambda>v. ''None'') \<lparr> initialized = False, mediaFiles = [], mediaDirectories = [] \<rparr> 9
        (Dir [] [''a.mp4'']) (Dir [] [''a.mp4'']) ''/lib'' False True None
        (Some [[(''libraryPath'', PStr ''/lib''), (''path'', PStr ''/lib/a.mp4''),
                (''media_type'', PStr ''unknown''), (''metadata'', PDict [(''size'', PInt 1)])]])
        (Some []) (new_progress ''s1'' ''/lib'' 0)) = None
   \<and> map (\<lambda>r. dict_get r ''path'' PNone) (scan_results (run_scan_async
        \<lparr> get_file_metadata = (\<lambda>p. Inr [(''size'', PInt 1)]), list_files = (\<lambda>p. Inr []),
          extract_video_metadata = (\<lambda>p. Inl MetadataExtractionError) \<rparr>
        (\<lambda>v. ''None'') \<lparr> initialized = False, mediaFiles = [], mediaDirectories = [] \<rparr> 9
        (Dir [] [''a.mp4'']) (Dir [] [''a.mp4'']) ''/lib'' False True None
        (Some [[(''libraryPath'', PStr ''/lib''), (''path'', PStr ''/lib/a.mp4''),
                (''media_type'', PStr ''unknown''), (''metadata'', PDict [(''size'', PInt 1)])]])
        (Some []) (new_progress ''s1'' ''/lib'' 0))) = [PStr ''/lib/a.mp4'']"
proof -
  let ?io = "\<lparr> get_file_metadata = (\<lambda>p. Inr [(''size'', PInt 1)]), list_files = (\<lambda>p. Inr []),
          extract_video_metadata = (\<lambda>p. Inl MetadataExtractionError) \<rparr>"
  let ?q = "(progress (process_pass ?io False ''/lib'' (Dir [] [''a.mp4''])
      (count_pass ''/lib'' (Dir [] [''a.mp4'']) (new_progress ''s1'' ''/lib'' 0))))
        \<lparr> status := ''completed'', end_time := Some 9 \<rparr>"
  have "duplicate_report ?q = None
      \<and> map (\<lambda>r. dict_get r ''path'' PNone) (scan_results ?q) = [PStr ''/lib/a.mp4'']"
    by code_simp
  then show ?thesis
    using caller_id_gate [of None ?io "\<lambda>v. ''None''"
        "\<lparr> initialized = False, mediaFiles = [], mediaDirectories = [] \<rparr>" 9
        "Dir [] [''a.mp4'']" "Dir [] [''a.mp4'']" "''/lib''" False
        "Some [[(''libraryPath'', PStr ''/lib''), (''path'', PStr ''/lib/a.mp4''),
                (''media_type'', PStr ''unknown''), (''metadata'', PDict [(''size'', PInt 1)])]]"
        "Some []" "new_progress ''s1'' ''/lib'' 0" "''s1''" 0]
    by simp
qed

text \<open>
  Claim C3 fails on the code.  A scan is stopped while its counting pass runs:
  \<^const>\<open>stop_scan\<close> answers \<open>True\<close> and sets the status to \<^verbatim>\<open>cancelled\<close>.  The
  processing pass then leaves its loop at once, and the task goes on to overwrite the
  status with \<^verbatim>\<open>completed\<close> and the end time with its own.
\<close>

theorem cancelled_scan_ends_completed:
  "stop_scan t1 [(sid, count_pass lib tree (new_progress sid lib t0))] sid
      = (True, [(sid, (count_pass lib tree (new_progress sid lib t0))
                        \<lparr> status := ''cancelled'', end_time := Some t1 \<rparr>)])
   \<and> status (finish_scan fmt db t2 lib cd uid ef ed
        (process_pass io ex lib tree
           ((count_pass lib tree (new_progress sid lib t0))
              \<lparr> status := ''cancelled'', end_time := Some t1 \<rparr>))) = ''completed''
   \<and> end_time (finish_scan fmt db t2 lib cd uid ef ed
        (process_pass io ex lib tree
           ((count_pass lib tree (new_progress sid lib t0))
              \<lparr> status := ''cancelled'', end_time := Some t1 \<rparr>))) = Some t2"
  by (simp add: stop_scan_def count_pass_def new_progress_def finish_scan_counters)
     (simp add: finish_scan_def)

text \<open>
  Claim C5 fails on the code.  Offline mode, the store not initialised, one scanned file
  that the supplied inventory lists with the same size and media type: the report counts
  one duplicate with no difference, and the file is still in the results.
\<close>

theorem exact_duplicate_not_filtered:
  "duplicate_report (run_scan_async
        \<lparr> get_file_metadata = (\<lambda>p. Inr [(''size'', PInt 1)]), list_files = (\<lambda>p. Inr []),
          extract_video_metadata = (\<lambda>p. Inl MetadataExtractionError) \<rparr>
        (\<lambda>v. ''None'') \<lparr> initialized = False, mediaFiles = [], mediaDirectories = [] \<rparr> 9
        (Dir [] [''a.mp4'']) (Dir [] [''a.mp4'']) ''/lib'' False True (Some ''user123'')
        (Some [[(''libraryPath'', PStr ''/lib''), (''path'', PStr ''/lib/a.mp4''),
                (''media_type'', PStr ''unknown''), (''metadata'', PDict [(''size'', PInt 1)])]])
        (Some []) (new_progress ''s1'' ''/lib'' 0))
     = Some \<lparr> duplicatesFound = 1, newItems = 0, differences = [], error = None \<rparr>
   \<and> map (\<lambda>r. dict_get r ''path'' PNone) (scan_results (run_scan_async
        \<lparr> get_file_metadata = (\<lambda>p. Inr [(''size'', PInt 1)]), list_files = (\<lambda>p. Inr []),
          extract_video_metadata = (\<lambda>p. Inl MetadataExtractionError) \<rparr>
        (\<lambda>v. ''None'') \<lparr> initialized = False, mediaFiles = [], mediaDirectories = [] \<rparr> 9
        (Dir [] [''a.mp4'']) (Dir [] [''a.mp4'']) ''/lib'' False True (Some ''user123'')
        (Some [[(''libraryPath'', PStr ''/lib''), (''path'', PStr ''/lib/a.mp4''),
                (''media_type'', PStr ''unknown''), (''metadata'', PDict [(''size'', PInt 1)])]])
        (Some []) (new_progress ''s1'' ''/lib'' 0))) = [PStr ''/lib/a.mp4'']
   \<and> files_found (run_scan_async
        \<lparr> get_file_metadata = (\<lambda>p. Inr [(''size'', PInt 1)]), list_files = (\<lambda>p. Inr []),
          extract_video_metadata = (\<lambda>p. Inl MetadataExtractionError) \<rparr>
        (\<lambda>v. ''None'') \<lparr> initialized = False, mediaFiles = [], mediaDirectories = [] \<rparr> 9
        (Dir [] [''a.mp4'']) (Dir [] [''a.mp4'']) ''/lib'' False True (Some ''user123'')
        (Some [[(''libraryPath'', PStr ''/lib''), (''path'', PStr ''/lib/a.mp4''),
                (''media_type'', PStr ''unknown''), (''metadata'', PDict [(''size'', PInt 1)])]])
        (Some []) (new_progress ''s1'' ''/lib'' 0)) = 1"
  by code_simp



lemma make_report_error:
  "error (make_report scanned r) = Some e \<Longrightarrow>
     make_report scanned r
       = \<lparr> duplicatesFound = 0, newItems = length scanned, differences = [], error = Some e \<rparr>"
  by (auto simp: make_report_def split: sum.splits)

lemma duplicate_check_error:
  "error (duplicate_check fmt db scanned uid lib ef ed) = Some e \<Longrightarrow>
     duplicate_check fmt db scanned uid lib ef ed
       = \<lparr> duplicatesFound = 0, newItems = length scanned, differences = [], error = Some e \<rparr>"
  by (auto simp: duplicate_check_def check_duplicates_def check_duplicates_with_existing_def
      Let_def split: option.splits intro!: make_report_error)

text \<open>
  Claim C7, as the code has it.  When the reconciliation raises, its own \<^verbatim>\<open>except\<close>
  branch turns the exception into a report: no duplicate, every scanned item new, no
  differences, and the error.  The task attaches this report and completes; nothing is
  appended to the errors, and the results and counters stay as the processing pass left
  them.
\<close>

theorem reconciliation_failure_in_report:
  assumes "uid \<noteq> []"
    and "error (duplicate_check fmt db
           (results (process_pass io ex lib tree2 (count_pass lib tree1 p))) uid lib ef ed)
         = Some e"
  shows "run_scan_async io fmt db now tree1 tree2 lib ex True (Some uid) ef ed p
           = (progress (process_pass io ex lib tree2 (count_pass lib tree1 p)))
               \<lparr> duplicate_report :=
                   Some \<lparr> duplicatesFound = 0,
                          newItems = length (results (process_pass io ex lib tree2
                                                       (count_pass lib tree1 p))),
                          differences = [], error = Some e \<rparr>,
                 status := ''completed'', end_time := Some now \<rparr>
       \<and> status (run_scan_async io fmt db now tree1 tree2 lib ex True (Some uid) ef ed p)
           = ''completed''
       \<and> errors (run_scan_async io fmt db now tree1 tree2 lib ex True (Some uid) ef ed p)
           = errors p
       \<and> scan_results (run_scan_async io fmt db now tree1 tree2 lib ex True (Some uid) ef ed p)
           = results (process_pass io ex lib tree2 (count_pass lib tree1 p))
       \<and> files_found (run_scan_async io fmt db now tree1 tree2 lib ex True (Some uid) ef ed p)
           = count_type ''file'' (results (process_pass io ex lib tree2 (count_pass lib tree1 p)))
       \<and> directories_found
             (run_scan_async io fmt db now tree1 tree2 lib ex True (Some uid) ef ed p)
           = count_type ''directory''
               (results (process_pass io ex lib tree2 (count_pass lib tree1 p)))
       \<and> processed_items
             (run_scan_async io fmt db now tree1 tree2 lib ex True (Some uid) ef ed p)
           = processed_items (progress (process_pass io ex lib tree2 (count_pass lib tree1 p)))"
proof -
  let ?st = "process_pass io ex lib tree2 (count_pass lib tree1 p)"
  from duplicate_check_error [OF assms(2)]
  have rep: "duplicate_check fmt db (results ?st) uid lib ef ed
      = \<lparr> duplicatesFound = 0, newItems = length (results ?st), differences = [],
          error = Some e \<rparr>" .
  have run: "run_scan_async io fmt db now tree1 tree2 lib ex True (Some uid) ef ed p
           = (progress ?st)
               \<lparr> duplicate_report :=
                   Some \<lparr> duplicatesFound = 0, newItems = length (results ?st),
                          differences = [], error = Some e \<rparr>,
                 status := ''completed'', end_time := Some now \<rparr>"
    using assms(1) by (simp add: run_scan_async_def finish_scan_def duplicate_step_def rep)
  from walk_progress [of io ex lib tree2 "count_pass lib tree1 p"] obtain n cp
    where "progress (scan_directory_sync io ex lib tree2
          \<lparr> progress = count_pass lib tree1 p, results = [], published = [] \<rparr>)
        = (count_pass lib tree1 p)\<lparr> processed_items := n, current_path := cp \<rparr>" by blast
  then have "errors (progress ?st) = errors p"
    by (simp add: process_pass_def Let_def count_pass_def)
  moreover have "scan_results (progress ?st) = results ?st
      \<and> files_found (progress ?st) = count_type ''file'' (results ?st)
      \<and> directories_found (progress ?st) = count_type ''directory'' (results ?st)"
    by (simp add: process_pass_def Let_def)
  ultimately show ?thesis unfolding run by simp
qed

text \<open>
  A directory is scanned again; the supplied inventory lists it with metadata that is a
  string, so the comparison raises.
\<close>

theorem reconciliation_failure_in_report_witness:
  "status (run_scan_async
        \<lparr> get_file_metadata = (\<lambda>p. Inr [(''size'', PInt 1)]), list_files = (\<lambda>p. Inr []),
          extract_video_metadata = (\<lambda>p. Inl MetadataExtractionError) \<rparr>
        (\<lambda>v. ''None'') \<lparr> initialized = False, mediaFiles = [], mediaDirectories = [] \<rparr> 9
        (Dir [(''tv'', Dir [] [])] []) (Dir [(''tv'', Dir [] [])] []) ''/lib'' False True
        (Some ''user123'') None
        (Some [[(''libraryPath'', PStr ''/lib''), (''path'', PStr ''/lib/tv''),
                (''metadata'', PStr ''lost'')]])
        (new_progress ''s1'' ''/lib'' 0)) = ''completed''
   \<and> errors (run_scan_async
        \<lparr> get_file_metadata = (\<lambda>p. Inr [(''size'', PInt 1)]), list_files = (\<lambda>p. Inr []),
          extract_video_metadata = (\<lambda>p. Inl MetadataExtractionError) \<rparr>
        (\<lambda>v. ''None'') \<lparr> initialized = False, mediaFiles = [], mediaDirectories = [] \<rparr> 9
        (Dir [(''tv'', Dir [] [])] []) (Dir [(''tv'', Dir [] [])] []) ''/lib'' False True
        (Some ''user123'') None
        (Some [[(''libraryPath'', PStr ''/lib''), (''path'', PStr ''/lib/tv''),
                (''metadata'', PStr ''lost'')]])
        (new_progress ''s1'' ''/lib'' 0)) = []"
proof -
  let ?io = "\<lparr> get_file_metadata = (\<lambda>p. Inr [(''size'', PInt 1)]), list_files = (\<lambda>p. Inr []),
          extract_video_metadata = (\<lambda>p. Inl MetadataExtractionError) \<rparr>"
  let ?db = "\<lparr> initialized = False, mediaFiles = [], mediaDirectories = [] \<rparr>"
  let ?tree = "Dir [(''tv'', Dir [] [])] []"
  let ?ed = "Some [[(''libraryPath'', PStr ''/lib''), (''path'', PStr ''/lib/tv''),
                (''metadata'', PStr ''lost'')]]"
  have u: "''user123'' \<noteq> []" by simp
  have e: "error (duplicate_check (\<lambda>v. ''None'') ?db
           (results (process_pass ?io False ''/lib'' ?tree
              (count_pass ''/lib'' ?tree (new_progress ''s1'' ''/lib'' 0))))
           ''user123'' ''/lib'' None ?ed) = Some AttributeError"
    by code_simp
  let ?run = "run_scan_async ?io (\<lambda>v. ''None'') ?db 9 ?tree ?tree ''/lib'' False True
      (Some ''user123'') None ?ed (new_progress ''s1'' ''/lib'' 0)"
  from reconciliation_failure_in_report [OF u e, of 9]
  have "status ?run = ''completed'' \<and> errors ?run = errors (new_progress ''s1'' ''/lib'' 0)"
    by blast
  then show ?thesis by (simp add: new_progress_def)
qed

text \<open>
  The claim promises an entry in the errors.  A file is scanned again; the supplied
  inventory lists it with \<^verbatim>\<open>"metadata": null\<close>.  The comparison raises, the scan
  completes, the errors stay empty, and the failure is in the report.
\<close>

theorem reconciliation_failure_counterexample:
  "status (run_scan_async
        \<lparr> get_file_metadata = (\<lambda>p. Inr [(''size'', PInt 1)]), list_files = (\<lambda>p. Inr []),
          extract_video_metadata = (\<lambda>p. Inl MetadataExtractionError) \<rparr>
        (\<lambda>v. ''None'') \<lparr> initialized = False, mediaFiles = [], mediaDirectories = [] \<rparr> 9
        (Dir [] [''a.mp4'']) (Dir [] [''a.mp4'']) ''/lib'' False True (Some ''user123'')
        (Some [[(''libraryPath'', PStr ''/lib''), (''path'', PStr ''/lib/a.mp4''),
                (''metadata'', PNone)]])
        None (new_progress ''s1'' ''/lib'' 0)) = ''completed''
   \<and> errors (run_scan_async
        \<lparr> get_file_metadata = (\<lambda>p. Inr [(''size'', PInt 1)]), list_files = (\<lambda>p. Inr []),
          extract_video_metadata = (\<lambda>p. Inl MetadataExtractionError) \<rparr>
        (\<lambda>v. ''None'') \<lparr> initialized = False, mediaFiles = [], mediaDirectories = [] \<rparr> 9
        (Dir [] [''a.mp4'']) (Dir [] [''a.mp4'']) ''/lib'' False True (Some ''user123'')
        (Some [[(''libraryPath'', PStr ''/lib''), (''path'', PStr ''/lib/a.mp4''),
                (''metadata'', PNone)]])
        None (new_progress ''s1'' ''/lib'' 0)) = []
   \<and> duplicate_report (run_scan_async
        \<lparr> get_file_metadata = (\<lambda>p. Inr [(''size'', PInt 1)]), list_files = (\<lambda>p. Inr []),
          extract_video_metadata = (\<lambda>p. Inl MetadataExtractionError) \<rparr>
        (\<lambda>v. ''None'') \<lparr> initialized = False, mediaFiles = [], mediaDirectories = [] \<rparr> 9
        (Dir [] [''a.mp4'']) (Dir [] [''a.mp4'']) ''/lib'' False True (Some ''user123'')
        (Some [[(''libraryPath'', PStr ''/lib''), (''path'', PStr ''/lib/a.mp4''),
                (''metadata'', PNone)]])
        None (new_progress ''s1'' ''/lib'' 0))
     = Some \<lparr> duplicatesFound = 0, newItems = 1, differences = [],
              error = Some AttributeError \<rparr>"
  by code_simp

end
